theory Spec2Isabelle
  imports Main
begin

section \<open>Diagnostics and process exit\<close>

text \<open>
  Everything the launcher reports goes to standard error through \<open>fprintf\<close>,
  \<open>vfprintf\<close>, \<open>fputc\<close> and \<open>perror\<close>. One write is kept as the format
  string with its still unformatted arguments, so that a statement such as "the message
  names the bind string" is a statement about the argument list.
\<close>

datatype arg = Str string | Num int

datatype diag =
    Printf string "arg list"
  | Perror string
  | Getopt_diag char

text \<open>
  A function of the launcher either returns a value or ends the process with
  \<open>exit(status)\<close> after some writes to standard error. \<open>Crash\<close> is the end of
  the process by a signal: a null pointer that is dereferenced, or a call for which no
  stack is left. \<open>OutOfFuel\<close> belongs to the bound on the iterations of the loops of
  the tree builder only; it is never produced (see \<open>parse_object_consuming\<close>).
\<close>

datatype 'a result = Ok 'a | Exit "diag list" int | Crash | OutOfFuel

definition bind_result :: "'a result \<Rightarrow> ('a \<Rightarrow> 'b result) \<Rightarrow> 'b result" where
  "bind_result r f =
     (case r of Ok x \<Rightarrow> f x | Exit d st \<Rightarrow> Exit d st | Crash \<Rightarrow> Crash | OutOfFuel \<Rightarrow> OutOfFuel)"

section \<open>The tokenizer's events (libyaml)\<close>

datatype yaml_event_type =
    YAML_NO_EVENT
  | YAML_STREAM_START_EVENT
  | YAML_STREAM_END_EVENT
  | YAML_DOCUMENT_START_EVENT
  | YAML_DOCUMENT_END_EVENT
  | YAML_ALIAS_EVENT
  | YAML_SCALAR_EVENT
  | YAML_SEQUENCE_START_EVENT
  | YAML_SEQUENCE_END_EVENT
  | YAML_MAPPING_START_EVENT
  | YAML_MAPPING_END_EVENT

fun event_type_code :: "yaml_event_type \<Rightarrow> int" where
  "event_type_code YAML_NO_EVENT = 0"
| "event_type_code YAML_STREAM_START_EVENT = 1"
| "event_type_code YAML_STREAM_END_EVENT = 2"
| "event_type_code YAML_DOCUMENT_START_EVENT = 3"
| "event_type_code YAML_DOCUMENT_END_EVENT = 4"
| "event_type_code YAML_ALIAS_EVENT = 5"
| "event_type_code YAML_SCALAR_EVENT = 6"
| "event_type_code YAML_SEQUENCE_START_EVENT = 7"
| "event_type_code YAML_SEQUENCE_END_EVENT = 8"
| "event_type_code YAML_MAPPING_START_EVENT = 9"
| "event_type_code YAML_MAPPING_END_EVENT = 10"

text \<open>
  An event carries its type, the optional tag, the scalar's bytes and the zero-based
  start mark. A scalar has a length of its own (\<open>data.scalar.length = length (ev_value e)\<close>),
  so its bytes may hold a NUL; where the launcher reads \<open>data.scalar.value\<close> as a C
  string (\<open>strcmp\<close>, \<open>%s\<close>), it sees \<open>c_str (ev_value e)\<close>, the bytes before the
  first NUL. Every other string of the model (a tag, an attribute's key or value, a path)
  stands for a \<open>char *\<close> without a length, that is for the bytes before its terminator;
  on those \<open>strcmp(a, b) == 0\<close> is equality.
\<close>

definition c_str :: "string \<Rightarrow> string" where
  "c_str s = takeWhile (\<lambda>c. c \<noteq> CHR 0x00) s"

record yaml_event =
  ev_type :: yaml_event_type
  ev_tag :: "string option"
  ev_value :: string
  ev_line :: nat
  ev_column :: nat

section \<open>Value nodes\<close>

text \<open>
  Modelled from the spec: the value node \<open>argdata_t\<close> and its constructors
  \<open>argdata_create_*\<close>, \<open>argdata_true\<close>, \<open>argdata_false\<close>, \<open>argdata_null\<close>
  (declared in \<open>argdata.h\<close> and \<open>argdata_impl.h\<close>, which are not among the sources).
  The variants are the closed set of the data model. A map keeps the \<open>keys\<close> and
  \<open>values\<close> arrays handed to \<open>argdata_create_map\<close>; an entry of \<open>values\<close> is a
  pointer that \<open>parse_map\<close> stores unchecked, so it may be the null pointer.
\<close>

datatype argdata =
    AD_NULL
  | AD_BOOL bool
  | AD_INT int
  | AD_STR string
  | AD_FD int
  | AD_MAP "argdata list" "argdata option list"
  | AD_SEQ "argdata list"
  | AD_BUFFER "nat list"

definition argdata_true :: argdata where
  "argdata_true = AD_BOOL True"

definition argdata_false :: argdata where
  "argdata_false = AD_BOOL False"

definition argdata_null :: argdata where
  "argdata_null = AD_NULL"

definition argdata_create_int :: "int \<Rightarrow> argdata" where
  "argdata_create_int v = AD_INT v"

definition argdata_create_fd :: "int \<Rightarrow> argdata" where
  "argdata_create_fd fd = AD_FD fd"

definition argdata_create_str :: "string \<Rightarrow> argdata" where
  "argdata_create_str s = AD_STR s"

definition argdata_create_map :: "argdata list \<Rightarrow> argdata option list \<Rightarrow> argdata" where
  "argdata_create_map keys vals = AD_MAP keys vals"

definition argdata_create_seq :: "argdata list \<Rightarrow> argdata" where
  "argdata_create_seq entries = AD_SEQ entries"

section \<open>The C library's integer conversions\<close>

text \<open>
  \<open>strtoimax\<close>, \<open>strtoumax\<close> and \<open>strtoul\<close> as ISO C describes them, for the bases
  the launcher uses (8, 10, 16) on an LP64 platform: initial white space is skipped, an
  optional sign follows, for base 16 an optional \<open>0x\<close>/\<open>0X\<close>, then the longest run of
  digits of the base. The result is the converted value, the offset of \<open>endptr\<close> from
  the start of the string, and \<open>errno\<close> (the caller has set it to 0). With no digit no
  conversion is performed: the value is 0 and \<open>endptr\<close> is the start of the string.
  Whether \<open>errno\<close> is set in that case differs between C libraries (POSIX allows
  \<open>EINVAL\<close>); it is the field \<open>noconv_errno\<close> of the platform record.

  The other fields of the platform: the message tables, the size of \<open>sun_path\<close>,
  whether \<open>getopt\<close> permutes the arguments (glibc does, unless told otherwise; POSIX and
  the BSD libraries stop at the first argument that is no option), and the number of
  nested calls of \<open>parse_object\<close> that the stack of the process admits.
\<close>

record libc =
  noconv_errno :: int
  strerror :: "int \<Rightarrow> string"
  gai_strerror :: "int \<Rightarrow> string"
  sun_path_size :: nat
  getopt_permutes :: bool
  stack_frames :: nat

definition ERANGE :: int where "ERANGE = 34"
definition EINVAL :: int where "EINVAL = 22"
definition EOPNOTSUPP :: int where "EOPNOTSUPP = 95"
definition INT_MAX :: int where "INT_MAX = 2147483647"
definition INTMAX_MAX :: int where "INTMAX_MAX = 9223372036854775807"
definition INTMAX_MIN :: int where "INTMAX_MIN = - 9223372036854775808"
definition UINTMAX_MAX :: int where "UINTMAX_MAX = 18446744073709551615"
definition STDOUT_FILENO :: int where "STDOUT_FILENO = 1"

definition isspace :: "char \<Rightarrow> bool" where
  "isspace c = (c = CHR '' '' \<or> (9 \<le> (of_char c :: nat) \<and> (of_char c :: nat) \<le> 13))"

definition digit_of :: "char \<Rightarrow> nat option" where
  "digit_of c =
     (let n = (of_char c :: nat) in
      if 48 \<le> n \<and> n \<le> 57 then Some (n - 48)
      else if 97 \<le> n \<and> n \<le> 122 then Some (n - 87)
      else if 65 \<le> n \<and> n \<le> 90 then Some (n - 55)
      else None)"

definition is_digit :: "nat \<Rightarrow> char \<Rightarrow> bool" where
  "is_digit base c = (case digit_of c of Some d \<Rightarrow> d < base | None \<Rightarrow> False)"

fun scan_digits :: "nat \<Rightarrow> string \<Rightarrow> nat \<Rightarrow> nat \<Rightarrow> nat \<times> nat" where
  "scan_digits base [] acc n = (acc, n)"
| "scan_digits base (c # cs) acc n =
     (case digit_of c of
        Some d \<Rightarrow> if d < base then scan_digits base cs (acc * base + d) (Suc n) else (acc, n)
      | None \<Rightarrow> (acc, n))"

definition has_hex_prefix :: "string \<Rightarrow> bool" where
  "has_hex_prefix s =
     (case s of
        c0 # c1 # c2 # _ \<Rightarrow> c0 = CHR ''0'' \<and> (c1 = CHR ''x'' \<or> c1 = CHR ''X'') \<and> is_digit 16 c2
      | _ \<Rightarrow> False)"

text \<open>
  The subject sequence: \<open>None\<close> when there is no digit, else the sign, the magnitude and
  the number of characters up to the end of the digits.
\<close>

definition strto_scan :: "nat \<Rightarrow> string \<Rightarrow> (bool \<times> nat \<times> nat) option" where
  "strto_scan base s =
     (let ws = length (takeWhile isspace s);
          s1 = drop ws s;
          neg = (case s1 of c # _ \<Rightarrow> c = CHR ''-'' | [] \<Rightarrow> False);
          sg = (case s1 of c # _ \<Rightarrow> if c = CHR ''-'' \<or> c = CHR ''+'' then 1 else 0 | [] \<Rightarrow> 0);
          s2 = drop sg s1;
          px = (if base = 16 \<and> has_hex_prefix s2 then 2 else 0);
          s3 = drop px s2;
          r = scan_digits base s3 0 0
      in if snd r = 0 then None else Some (neg, fst r, ws + sg + px + snd r))"

definition strtoimax :: "libc \<Rightarrow> string \<Rightarrow> nat \<Rightarrow> int \<times> nat \<times> int" where
  "strtoimax lc s base =
     (case strto_scan base s of
        None \<Rightarrow> (0, 0, noconv_errno lc)
      | Some (neg, m, n) \<Rightarrow>
          let v = (if neg then - int m else int m) in
          if v > INTMAX_MAX then (INTMAX_MAX, n, ERANGE)
          else if v < INTMAX_MIN then (INTMAX_MIN, n, ERANGE)
          else (v, n, 0))"

text \<open>
  The unsigned conversions negate a value with a minus sign in the unsigned type; only
  a magnitude above the type's maximum is a range error.
\<close>

definition strtoumax :: "libc \<Rightarrow> string \<Rightarrow> nat \<Rightarrow> int \<times> nat \<times> int" where
  "strtoumax lc s base =
     (case strto_scan base s of
        None \<Rightarrow> (0, 0, noconv_errno lc)
      | Some (neg, m, n) \<Rightarrow>
          if int m > UINTMAX_MAX then (UINTMAX_MAX, n, ERANGE)
          else ((if neg then (- int m) mod 2 ^ 64 else int m), n, 0))"

definition strtoul :: "libc \<Rightarrow> string \<Rightarrow> nat \<Rightarrow> int \<times> nat \<times> int" where
  "strtoul lc s base = strtoumax lc s base"

section \<open>Scalar nodes\<close>

text \<open>\<open>exit_parse_error\<close>: position prefix (one-based), the message, a newline, \<open>exit(127)\<close>.\<close>

definition exit_parse_error :: "yaml_event \<Rightarrow> string \<Rightarrow> arg list \<Rightarrow> 'a result" where
  "exit_parse_error event message ap =
     Exit [Printf ''stdin:%zu:%zu: '' [Num (int (ev_line event) + 1), Num (int (ev_column event) + 1)],
           Printf message ap,
           Printf [CHR 0x0A] []] 127"

definition parse_bool :: "yaml_event \<Rightarrow> argdata result" where
  "parse_bool event =
     (let v = c_str (ev_value event) in
      if v = ''true'' then Ok argdata_true
      else if v = ''false'' then Ok argdata_false
      else exit_parse_error event ''Unknown boolean value: %s'' [Str v])"

definition parse_null :: "yaml_event \<Rightarrow> argdata result" where
  "parse_null event = Ok argdata_null"

definition parse_int :: "libc \<Rightarrow> yaml_event \<Rightarrow> argdata result" where
  "parse_int lc event =
     (let v = ev_value event;
          value_end = length v;
          pre = (take 2 v = ''0o'' \<or> take 2 v = ''0x'');
          base = (if take 2 v = ''0o'' then 8 else if take 2 v = ''0x'' then 16 else 10);
          skip = (if pre then 2 else 0);
          rest = drop skip v
      in case strtoimax lc rest base of (intval, endptr, errno) \<Rightarrow>
           if errno = 0 \<and> skip + endptr = value_end then Ok (argdata_create_int intval)
           else case strtoumax lc rest base of (uintval, endptr', errno') \<Rightarrow>
             if errno' = 0 \<and> skip + endptr' = value_end then Ok (argdata_create_int uintval)
             else exit_parse_error event ''Invalid integer value'' [])"

section \<open>The operating system\<close>

text \<open>
  The system calls the launcher makes, over a state \<open>'s\<close> of the launching process and
  its kernel. A call that fails returns its \<open>errno\<close>: \<open>Some e\<close> or \<open>Inl e\<close>.
  \<open>sys_getaddrinfo\<close> succeeds with a linked list of one or more addresses (its head and
  its tail). \<open>realloc_fails\<close> tells whether the allocator cannot provide the given
  number of bytes. The last six fields are the collaborators of \<open>main\<close> that are not among the
  sources: the codec, the emulator's descriptor table and the two ways of starting the
  executable. \<open>emulate\<close> and \<open>program_exec\<close> return only when they fail:
  \<open>emulate\<close> is \<open>True\<close> when the call returns, \<open>program_exec\<close> is the error it
  returns, if it does.
\<close>

datatype socktype = SOCK_STREAM | SOCK_DGRAM | SOCK_SEQPACKET

datatype open_flags = O_RDONLY | O_EXEC

record sockaddr =
  sa_family :: int
  sa_data :: string

definition AF_UNIX :: int where "AF_UNIX = 1"

record 's os =
  sys_fstat :: "'s \<Rightarrow> int \<Rightarrow> int option"
  sys_open :: "'s \<Rightarrow> string \<Rightarrow> open_flags \<Rightarrow> (int + int) \<times> 's"
  sys_getaddrinfo :: "'s \<Rightarrow> string \<Rightarrow> string \<Rightarrow> socktype \<Rightarrow> int + (sockaddr \<times> sockaddr list)"
  sys_socket :: "'s \<Rightarrow> int \<Rightarrow> socktype \<Rightarrow> (int + int) \<times> 's"
  sys_setsockopt_reuseaddr :: "'s \<Rightarrow> int \<Rightarrow> 's"
  sys_bind :: "'s \<Rightarrow> int \<Rightarrow> sockaddr \<Rightarrow> int option \<times> 's"
  sys_listen :: "'s \<Rightarrow> int \<Rightarrow> nat \<Rightarrow> int option \<times> 's"
  malloc_fails :: "'s \<Rightarrow> nat \<Rightarrow> bool"
  realloc_fails :: "'s \<Rightarrow> nat \<Rightarrow> bool"
  argdata_get_buffer_length :: "argdata option \<Rightarrow> nat \<times> nat"
  argdata_get_buffer :: "argdata option \<Rightarrow> nat list \<times> int list"
  fd_table_init :: "'s \<Rightarrow> 's"
  fd_table_insert_existing :: "'s \<Rightarrow> nat \<Rightarrow> int \<Rightarrow> bool \<times> 's"
  emulate :: "'s \<Rightarrow> int \<Rightarrow> nat list \<Rightarrow> nat \<Rightarrow> bool"
  program_exec :: "'s \<Rightarrow> int \<Rightarrow> argdata option \<Rightarrow> int option"

section \<open>Existing descriptors\<close>

text \<open>
  \<open>parse_fd\<close>, first half: the descriptor number named by the token. \<open>fd\<close> is an
  \<open>unsigned long\<close>. The two names are compared with \<open>strcmp\<close>; \<open>strtoul\<close> reads
  the same C string, and since it stops at a NUL as at any other byte that is no digit,
  it is run on the scalar's bytes, whose length the end pointer is compared with.
\<close>

definition parse_fd_number :: "libc \<Rightarrow> yaml_event \<Rightarrow> int result" where
  "parse_fd_number lc event =
     (let v = ev_value event in
      if c_str v = ''stdout'' then Ok STDOUT_FILENO
      else if c_str v = ''stderr'' then Ok STDOUT_FILENO
      else case strtoul lc v 10 of (fd, endptr, errno) \<Rightarrow>
        if errno \<noteq> 0 \<or> endptr \<noteq> length v \<or> fd > INT_MAX
        then exit_parse_error event ''Invalid file descriptor number'' []
        else Ok fd)"

text \<open>\<open>parse_fd\<close>: the number, then the probe with \<open>fstat\<close>.\<close>

definition parse_fd :: "libc \<Rightarrow> 's os \<Rightarrow> 's \<Rightarrow> yaml_event \<Rightarrow> argdata result" where
  "parse_fd lc os s event =
     bind_result (parse_fd_number lc event) (\<lambda>fd.
       case sys_fstat os s fd of
         Some errno \<Rightarrow>
           exit_parse_error event ''File descriptor %d: %s'' [Num fd, Str (strerror lc errno)]
       | None \<Rightarrow> Ok (argdata_create_fd fd))"

section \<open>The event stream\<close>

text \<open>
  The tokenizer is the list of what \<open>yaml_parser_parse\<close> will deliver: an event, or a
  failure at a mark. After the last event libyaml keeps returning an all-zero event,
  whose type is \<open>YAML_NO_EVENT\<close>.
\<close>

datatype yaml_step = Event yaml_event | Parser_error nat nat

type_synonym yaml_parser = "yaml_step list"

definition no_event :: yaml_event where
  "no_event = \<lparr>ev_type = YAML_NO_EVENT, ev_tag = None, ev_value = [], ev_line = 0, ev_column = 0\<rparr>"

fun get_event :: "yaml_parser \<Rightarrow> (yaml_event \<times> yaml_parser) result" where
  "get_event [] = Ok (no_event, [])"
| "get_event (Parser_error l c # p) =
     Exit [Printf (''stdin:%zu:%zu: Parse error'' @ [CHR 0x0A]) [Num (int l + 1), Num (int c + 1)]] 127"
| "get_event (Event e # p) =
     (if ev_type e = YAML_DOCUMENT_END_EVENT \<or> ev_type e = YAML_STREAM_END_EVENT
      then get_event p else Ok (e, p))"

definition TAG_PREFIX :: string where "TAG_PREFIX = ''tag:nuxi.nl,2015:cloudabi/''"
definition YAML_NULL_TAG :: string where "YAML_NULL_TAG = ''tag:yaml.org,2002:null''"
definition YAML_BOOL_TAG :: string where "YAML_BOOL_TAG = ''tag:yaml.org,2002:bool''"
definition YAML_STR_TAG :: string where "YAML_STR_TAG = ''tag:yaml.org,2002:str''"
definition YAML_INT_TAG :: string where "YAML_INT_TAG = ''tag:yaml.org,2002:int''"
definition YAML_SEQ_TAG :: string where "YAML_SEQ_TAG = ''tag:yaml.org,2002:seq''"
definition YAML_MAP_TAG :: string where "YAML_MAP_TAG = ''tag:yaml.org,2002:map''"

text \<open>The scalar case of \<open>parse_object\<close>'s switch.\<close>

definition parse_scalar :: "libc \<Rightarrow> 's os \<Rightarrow> 's \<Rightarrow> yaml_event \<Rightarrow> argdata result" where
  "parse_scalar lc os s event =
     (case ev_tag event of
        None \<Rightarrow> Ok (argdata_create_str (ev_value event))
      | Some tag \<Rightarrow>
          if tag = YAML_STR_TAG then Ok (argdata_create_str (ev_value event))
          else if tag = YAML_BOOL_TAG then parse_bool event
          else if tag = YAML_INT_TAG then parse_int lc event
          else if tag = YAML_NULL_TAG then parse_null event
          else if tag = TAG_PREFIX @ ''fd'' then parse_fd lc os s event
          else exit_parse_error event ''Unsupported tag for scalar: %s'' [Str tag])"

section \<open>Files and sockets\<close>

text \<open>
  Modelled from the spec: \<open>argdata_get_str_c\<close> (libcloudabi, not among the sources)
  yields the string of a string node, as a \<open>const char *\<close>, and an error code for any
  other node. It reads the node it is given, so a null pointer is a crash.
\<close>

definition argdata_get_str_c :: "argdata option \<Rightarrow> (int + string) result" where
  "argdata_get_str_c ad =
     (case ad of
        None \<Rightarrow> Crash
      | Some (AD_STR s) \<Rightarrow> Ok (Inr (c_str s))
      | Some _ \<Rightarrow> Ok (Inl EINVAL))"

fun strchr :: "string \<Rightarrow> char \<Rightarrow> nat option" where
  "strchr [] c = None"
| "strchr (x # xs) c = (if x = c then Some 0 else map_option Suc (strchr xs c))"

fun strstr :: "string \<Rightarrow> string \<Rightarrow> nat option" where
  "strstr [] needle = (if needle = [] then Some 0 else None)"
| "strstr (x # xs) needle =
     (if take (length needle) (x # xs) = needle then Some 0
      else map_option Suc (strstr xs needle))"

text \<open>\<open>parse_file\<close> after its attribute loop: open the file.\<close>

definition parse_file_open ::
  "libc \<Rightarrow> 's os \<Rightarrow> yaml_event \<Rightarrow> 's \<Rightarrow> string option \<Rightarrow> (argdata \<times> 's) result" where
  "parse_file_open lc os event s path =
     (case path of
        None \<Rightarrow> exit_parse_error event ''Missing path attribute'' []
      | Some pa \<Rightarrow>
          (case sys_open os s pa O_RDONLY of
             (Inl errno, s') \<Rightarrow>
               exit_parse_error event (''Failed to open '' @ [CHR 0x22] @ ''%s'' @ [CHR 0x22] @ '': %s'') [Str pa, Str (strerror lc errno)]
           | (Inr fd, s') \<Rightarrow> Ok (argdata_create_fd fd, s')))"

text \<open>
  \<open>parse_socket\<close> after its attribute loop. The address to bind to: a path for a
  UNIX socket, or the single address the host and service resolve to.
\<close>

text \<open>
  Where the host name ends (\<open>split\<close>) and where the service name starts
  (\<open>servname\<close>), as offsets into the bind string; \<open>None\<close> when \<open>split\<close> is null.
\<close>

definition split_host_port :: "string \<Rightarrow> (nat \<times> nat) option" where
  "split_host_port bindstr =
     (if take 1 bindstr = ''['' then map_option (\<lambda>i. (i, i + 2)) (strstr bindstr '']:'')
      else map_option (\<lambda>i. (i, i + 1)) (strchr bindstr CHR '':''))"

definition socket_address ::
  "libc \<Rightarrow> 's os \<Rightarrow> yaml_event \<Rightarrow> 's \<Rightarrow> socktype \<Rightarrow> string \<Rightarrow> sockaddr result" where
  "socket_address lc os event s type bindstr =
     (if take 1 bindstr = ''/'' then
        (if length bindstr \<ge> sun_path_size lc
         then exit_parse_error event ''Socket path %s too long'' [Str bindstr]
         else Ok \<lparr>sa_family = AF_UNIX, sa_data = bindstr\<rparr>)
      else
        (case split_host_port bindstr of
           None \<Rightarrow>
             exit_parse_error event ''Address %s does not contain a port number'' [Str bindstr]
         | Some (split, serv) \<Rightarrow>
             (case sys_getaddrinfo os s (take split bindstr) (drop serv bindstr) type of
                Inl error \<Rightarrow>
                  exit_parse_error event ''Failed to resolve %s: %s''
                    [Str bindstr, Str (gai_strerror lc error)]
              | Inr (res, ai_next) \<Rightarrow>
                  if ai_next \<noteq> []
                  then exit_parse_error event ''%s resolves to multiple addresses'' [Str bindstr]
                  else Ok res)))"

definition parse_socket_bind ::
  "libc \<Rightarrow> 's os \<Rightarrow> yaml_event \<Rightarrow> 's \<Rightarrow> string \<Rightarrow> string option \<Rightarrow> (argdata \<times> 's) result" where
  "parse_socket_bind lc os event s typestr bindstr =
     bind_result
       (if typestr = ''dgram'' then Ok SOCK_DGRAM
        else if typestr = ''seqpacket'' then Ok SOCK_SEQPACKET
        else if typestr = ''stream'' then Ok SOCK_STREAM
        else exit_parse_error event ''Unsupported type attribute: %s'' [Str typestr])
       (\<lambda>type.
          case bindstr of
            None \<Rightarrow> exit_parse_error event ''Missing bind attribute'' []
          | Some b \<Rightarrow>
              bind_result (socket_address lc os event s type b) (\<lambda>sa.
                case sys_socket os s (sa_family sa) type of
                  (Inl errno, s1) \<Rightarrow>
                    exit_parse_error event ''Failed to create socket for %s: %s''
                      [Str b, Str (strerror lc errno)]
                | (Inr fd, s1) \<Rightarrow>
                    (case sys_bind os (sys_setsockopt_reuseaddr os s1 fd) fd sa of
                       (Some errno, s2) \<Rightarrow>
                         exit_parse_error event ''Failed to bind to %s: %s''
                           [Str b, Str (strerror lc errno)]
                     | (None, s2) \<Rightarrow>
                         (case sys_listen os s2 fd 0 of
                            (Some errno, s3) \<Rightarrow>
                              if errno \<noteq> EOPNOTSUPP
                              then exit_parse_error event ''Failed to listen on %s: %s''
                                     [Str b, Str (strerror lc errno)]
                              else Ok (argdata_create_fd fd, s3)
                          | (None, s3) \<Rightarrow> Ok (argdata_create_fd fd, s3)))))"

section \<open>The tree builder\<close>

text \<open>
  \<open>parse_object\<close> and the loops of \<open>parse_map\<close>, \<open>parse_seq\<close>, \<open>parse_file\<close> and
  \<open>parse_socket\<close>, which call it back. The loops take the \<open>parse_object\<close> they call
  as the argument \<open>po\<close> and a bound on their iterations; they carry their growing
  arrays, the room allocated for them (\<open>space\<close>, in entries of 8 bytes) and the
  attributes found so far. The result of \<open>realloc\<close> is used unchecked: when it fails,
  the store into the array is a store through a null pointer. A result is the node
  (\<open>None\<close> is the null pointer that signals the end of a collection), the state of the
  system and the rest of the event stream.
\<close>

type_synonym 's parsed = "(argdata option \<times> 's \<times> yaml_parser) result"

definition grown :: "nat \<Rightarrow> nat" where
  "grown space = (if space < 8 then 8 else space * 2)"

primrec parse_map ::
  "'s os \<Rightarrow> ('s \<Rightarrow> yaml_parser \<Rightarrow> 's parsed) \<Rightarrow> nat \<Rightarrow> 's \<Rightarrow> yaml_parser \<Rightarrow>
   argdata list \<Rightarrow> argdata option list \<Rightarrow> nat \<Rightarrow> 's parsed" where
  "parse_map os po 0 s p keys vals space = OutOfFuel"
| "parse_map os po (Suc n) s p keys vals space =
     bind_result (po s p) (\<lambda>(ad, s1, p1).
       case ad of
         None \<Rightarrow> Ok (Some (argdata_create_map keys vals), s1, p1)
       | Some k \<Rightarrow>
           if length keys = space \<and> realloc_fails os s1 (grown space * 8) then Crash
           else
             bind_result (po s1 p1) (\<lambda>(v, s2, p2).
               parse_map os po n s2 p2 (keys @ [k]) (vals @ [v])
                 (if length keys = space then grown space else space)))"

primrec parse_seq ::
  "'s os \<Rightarrow> ('s \<Rightarrow> yaml_parser \<Rightarrow> 's parsed) \<Rightarrow> nat \<Rightarrow> 's \<Rightarrow> yaml_parser \<Rightarrow>
   argdata list \<Rightarrow> nat \<Rightarrow> 's parsed" where
  "parse_seq os po 0 s p entries space = OutOfFuel"
| "parse_seq os po (Suc n) s p entries space =
     bind_result (po s p) (\<lambda>(ad, s1, p1).
       case ad of
         None \<Rightarrow> Ok (Some (argdata_create_seq entries), s1, p1)
       | Some e \<Rightarrow>
           if length entries = space \<and> realloc_fails os s1 (grown space * 8) then Crash
           else parse_seq os po n s1 p1 (entries @ [e])
                  (if length entries = space then grown space else space))"

text \<open>One attribute of a \<open>!file\<close> or \<open>!socket\<close> mapping: the key's string and the value node.\<close>

definition parse_attribute ::
  "libc \<Rightarrow> ('s \<Rightarrow> yaml_parser \<Rightarrow> 's parsed) \<Rightarrow> yaml_event \<Rightarrow> argdata \<Rightarrow> 's \<Rightarrow> yaml_parser \<Rightarrow>
   (string \<times> argdata option \<times> 's \<times> yaml_parser) result" where
  "parse_attribute lc po event key s p =
     bind_result (argdata_get_str_c (Some key)) (\<lambda>r.
       case r of
         Inl error \<Rightarrow> exit_parse_error event ''Bad attribute: %s'' [Str (strerror lc error)]
       | Inr keystr \<Rightarrow> bind_result (po s p) (\<lambda>(v, s', p'). Ok (keystr, v, s', p')))"

definition attribute_str ::
  "libc \<Rightarrow> yaml_event \<Rightarrow> string \<Rightarrow> argdata option \<Rightarrow> string result" where
  "attribute_str lc event message v =
     bind_result (argdata_get_str_c v) (\<lambda>r.
       case r of
         Inl error \<Rightarrow> exit_parse_error event message [Str (strerror lc error)]
       | Inr str \<Rightarrow> Ok str)"

primrec parse_file ::
  "libc \<Rightarrow> 's os \<Rightarrow> ('s \<Rightarrow> yaml_parser \<Rightarrow> 's parsed) \<Rightarrow> nat \<Rightarrow> yaml_event \<Rightarrow> 's \<Rightarrow> yaml_parser \<Rightarrow>
   string option \<Rightarrow> 's parsed" where
  "parse_file lc os po 0 event s p path = OutOfFuel"
| "parse_file lc os po (Suc n) event s p path =
     bind_result (po s p) (\<lambda>(key, s1, p1).
       case key of
         None \<Rightarrow>
           bind_result (parse_file_open lc os event s1 path) (\<lambda>(ad, s2). Ok (Some ad, s2, p1))
       | Some k \<Rightarrow>
           bind_result (parse_attribute lc po event k s1 p1) (\<lambda>(keystr, v, s2, p2).
             if keystr = ''path'' then
               bind_result (attribute_str lc event ''Bad path attribute: %s'' v)
                 (\<lambda>pa. parse_file lc os po n event s2 p2 (Some pa))
             else exit_parse_error event ''Unknown file attribute: %s'' [Str keystr]))"

primrec parse_socket ::
  "libc \<Rightarrow> 's os \<Rightarrow> ('s \<Rightarrow> yaml_parser \<Rightarrow> 's parsed) \<Rightarrow> nat \<Rightarrow> yaml_event \<Rightarrow> 's \<Rightarrow> yaml_parser \<Rightarrow>
   string \<Rightarrow> string option \<Rightarrow> 's parsed" where
  "parse_socket lc os po 0 event s p typestr bindstr = OutOfFuel"
| "parse_socket lc os po (Suc n) event s p typestr bindstr =
     bind_result (po s p) (\<lambda>(key, s1, p1).
       case key of
         None \<Rightarrow>
           bind_result (parse_socket_bind lc os event s1 typestr bindstr)
             (\<lambda>(ad, s2). Ok (Some ad, s2, p1))
       | Some k \<Rightarrow>
           bind_result (parse_attribute lc po event k s1 p1) (\<lambda>(keystr, v, s2, p2).
             if keystr = ''type'' then
               bind_result (attribute_str lc event ''Bad type attribute: %s'' v)
                 (\<lambda>t. parse_socket lc os po n event s2 p2 t bindstr)
             else if keystr = ''bind'' then
               bind_result (attribute_str lc event ''Bad bind attribute: %s'' v)
                 (\<lambda>b. parse_socket lc os po n event s2 p2 typestr (Some b))
             else exit_parse_error event ''Unknown socket attribute: %s'' [Str keystr]))"

text \<open>
  The switch of \<open>parse_object\<close> on the event it has fetched. A loop started on \<open>p\<close>
  is given \<open>Suc (length p)\<close> iterations, which it cannot use up.
\<close>

definition parse_event ::
  "libc \<Rightarrow> 's os \<Rightarrow> ('s \<Rightarrow> yaml_parser \<Rightarrow> 's parsed) \<Rightarrow> yaml_event \<Rightarrow> 's \<Rightarrow> yaml_parser \<Rightarrow>
   's parsed" where
  "parse_event lc os po event s p =
     (if ev_type event = YAML_STREAM_START_EVENT then po s p
      else if ev_type event = YAML_DOCUMENT_START_EVENT then po s p
      else if ev_type event = YAML_MAPPING_START_EVENT then
        (case ev_tag event of
           None \<Rightarrow> parse_map os po (Suc (length p)) s p [] [] 0
         | Some tag \<Rightarrow>
             if tag = YAML_MAP_TAG then parse_map os po (Suc (length p)) s p [] [] 0
             else if tag = TAG_PREFIX @ ''file''
               then parse_file lc os po (Suc (length p)) event s p None
             else if tag = TAG_PREFIX @ ''socket''
               then parse_socket lc os po (Suc (length p)) event s p ''stream'' None
             else exit_parse_error event ''Unsupported tag for mapping: %s'' [Str tag])
      else if ev_type event = YAML_SCALAR_EVENT then
        bind_result (parse_scalar lc os s event) (\<lambda>ad. Ok (Some ad, s, p))
      else if ev_type event = YAML_SEQUENCE_START_EVENT then
        (case ev_tag event of
           None \<Rightarrow> parse_seq os po (Suc (length p)) s p [] 0
         | Some tag \<Rightarrow>
             if tag = YAML_SEQ_TAG then parse_seq os po (Suc (length p)) s p [] 0
             else exit_parse_error event ''Unsupported tag for sequence: %s'' [Str tag])
      else if ev_type event = YAML_MAPPING_END_EVENT
           \<or> ev_type event = YAML_SEQUENCE_END_EVENT then Ok (None, s, p)
      else exit_parse_error event ''Unsupported event %d''
             [Num (event_type_code (ev_type event))])"

text \<open>
  \<open>parse_object\<close>. The source recurses on the C stack and sets no limit to the nesting
  of the document; the numeric argument is the number of nested calls that the stack
  still admits, and a call made when none is left ends the process by a signal.
\<close>

primrec parse_object :: "libc \<Rightarrow> 's os \<Rightarrow> nat \<Rightarrow> 's \<Rightarrow> yaml_parser \<Rightarrow> 's parsed" where
  "parse_object lc os 0 = (\<lambda>s p. Crash)"
| "parse_object lc os (Suc n) = (\<lambda>s p.
     bind_result (get_event p) (\<lambda>(event, p').
       parse_event lc os (parse_object lc os n) event s p'))"

section \<open>The command line and the dispatch\<close>

definition usage_line :: diag where
  "usage_line = Printf (''usage: cloudabi-run [-e] executable'' @ [CHR 0x0A]) []"

definition usage :: "'a result" where
  "usage = Exit [usage_line] 127"







section \<open>Pulling from a sequence iterator\<close>

text \<open>
  The iterator of \<open>argdata_seq_next\<close>, with its fields \<open>container\<close> (the node
  walked), \<open>offset\<close> (the byte offset, or the index for an in-memory sequence),
  \<open>error\<close> and \<open>value\<close> (the slot that a decoded sub-value is written to). Sizes
  are \<open>size_t\<close>, 64 bits wide.

  \<open>parse_subfield\<close> is declared in \<open>argdata_impl.h\<close>, which is not among the sources; it
  is the parameter \<open>ps\<close>. It is given the slot, the bytes from \<open>buf\<close> on and \<open>len\<close>, and
  returns its error code, the slot as it leaves it and the number of bytes by which it
  has moved \<open>buf\<close>.
\<close>

record seq_iterator =
  it_container :: argdata
  it_offset :: nat
  it_error :: int
  it_value :: argdata

record subfield =
  sf_error :: int
  sf_value :: argdata
  sf_advance :: nat

type_synonym parse_subfield = "argdata \<Rightarrow> nat list \<Rightarrow> nat \<Rightarrow> subfield"

definition size_sub :: "nat \<Rightarrow> nat \<Rightarrow> nat" where
  "size_sub a b = nat ((int a - int b) mod 2 ^ 64)"

text \<open>
  The result of a pull: \<open>None\<close> when the assertion on the node's type fails, else what
  is returned, the element stored through \<open>value\<close> (if any) and the iterator.
\<close>

definition argdata_seq_next ::
  "parse_subfield \<Rightarrow> seq_iterator \<Rightarrow> (bool \<times> argdata option \<times> seq_iterator) option" where
  "argdata_seq_next ps it =
     (case it_container it of
        AD_BUFFER buffer \<Rightarrow>
          (let buf = drop (it_offset it) buffer;
               len = size_sub (length buffer) (it_offset it)
           in if len = 0 then Some (False, None, it)
              else
                (let r = ps (it_value it) buf len;
                     it1 = it\<lparr>it_value := sf_value r\<rparr>
                 in if sf_error r \<noteq> 0 then Some (False, None, it1\<lparr>it_error := sf_error r\<rparr>)
                    else Some (True, Some (sf_value r),
                               it1\<lparr>it_offset := it_offset it + sf_advance r\<rparr>)))
      | AD_SEQ entries \<Rightarrow>
          (if it_offset it \<ge> length entries then Some (False, None, it)
           else Some (True, Some (entries ! it_offset it), it\<lparr>it_offset := it_offset it + 1\<rparr>))
      | _ \<Rightarrow> None)"

text \<open>
  Modelled from the spec: \<open>parse_subfield\<close>. In the spec's words a pull "parses
  exactly one sub-value starting at an internal byte offset, advances the offset past
  it", the offset at most reaches "the end of available bytes", and a truncated buffer
  is a decode error: a sub-value that is parsed lies within the \<open>len\<close> bytes given.
\<close>

definition subfield_contract :: "parse_subfield \<Rightarrow> bool" where
  "subfield_contract ps =
     (\<forall>v buf len. sf_error (ps v buf len) = 0 \<longrightarrow> sf_advance (ps v buf len) \<le> len)"

text \<open>
  Two instances that keep this contract, for concrete runs only (neither is the
  encoding of the absent helper): a sub-value is one length byte followed by that many
  bytes, kept as a buffer node; fewer bytes than announced is \<open>EINVAL\<close>. The first
  leaves the slot alone when it fails; the second has filled it in by then.
\<close>

definition prefixed_subfield :: parse_subfield where
  "prefixed_subfield v buf len =
     (case buf of
        [] \<Rightarrow> \<lparr>sf_error = EINVAL, sf_value = v, sf_advance = 0\<rparr>
      | n # rest \<Rightarrow>
          if n + 1 > len \<or> n > length rest
          then \<lparr>sf_error = EINVAL, sf_value = v, sf_advance = 0\<rparr>
          else \<lparr>sf_error = 0, sf_value = AD_BUFFER (take n rest), sf_advance = n + 1\<rparr>)"

definition eager_subfield :: parse_subfield where
  "eager_subfield v buf len =
     (case buf of
        [] \<Rightarrow> \<lparr>sf_error = EINVAL, sf_value = v, sf_advance = 0\<rparr>
      | n # rest \<Rightarrow>
          if n + 1 > len \<or> n > length rest
          then \<lparr>sf_error = EINVAL, sf_value = AD_BUFFER rest, sf_advance = 0\<rparr>
          else \<lparr>sf_error = 0, sf_value = AD_BUFFER (take n rest), sf_advance = n + 1\<rparr>)"

section \<open>A small system for concrete runs\<close>

text \<open>
  A platform whose C library sets no \<open>errno\<close> when nothing is converted and whose
  \<open>getopt\<close> permutes, and a system whose state is the list of open descriptors, with a
  table of the addresses each host name resolves to. Allocation never fails, no file can
  be opened and neither way of starting the executable succeeds.
\<close>

definition EBADF :: int where "EBADF = 9"
definition ENOENT :: int where "ENOENT = 2"
definition ENOEXEC :: int where "ENOEXEC = 8"
definition EAI_NONAME :: int where "EAI_NONAME = - 2"

definition sample_libc :: libc where
  "sample_libc =
     \<lparr>noconv_errno = 0, strerror = (\<lambda>e. ''errno''), gai_strerror = (\<lambda>e. ''eai''),
      sun_path_size = 108, getopt_permutes = True, stack_frames = 80000\<rparr>"

definition sample_os :: "(string \<Rightarrow> sockaddr list) \<Rightarrow> int list os" where
  "sample_os hosts =
     \<lparr>sys_fstat = (\<lambda>s fd. if fd \<in> set s then None else Some EBADF),
      sys_open = (\<lambda>s path flags. (Inl ENOENT, s)),
      sys_getaddrinfo = (\<lambda>s host serv type.
        case hosts host of [] \<Rightarrow> Inl EAI_NONAME | a # as \<Rightarrow> Inr (a, as)),
      sys_socket = (\<lambda>s family type. (Inr (foldr max s 0 + 1), (foldr max s 0 + 1) # s)),
      sys_setsockopt_reuseaddr = (\<lambda>s fd. s),
      sys_bind = (\<lambda>s fd sa. (None, s)),
      sys_listen = (\<lambda>s fd backlog. (None, s)),
      malloc_fails = (\<lambda>s n. False),
      realloc_fails = (\<lambda>s n. False),
      argdata_get_buffer_length = (\<lambda>ad. (0, 0)),
      argdata_get_buffer = (\<lambda>ad. ([], [])),
      fd_table_init = (\<lambda>s. s),
      fd_table_insert_existing = (\<lambda>s i fd. (fd \<in> set s, s)),
      emulate = (\<lambda>s fd buf buflen. True),
      program_exec = (\<lambda>s fd ad. Some ENOEXEC)\<rparr>"

definition scalar_event :: "string option \<Rightarrow> string \<Rightarrow> yaml_event" where
  "scalar_event tag v =
     \<lparr>ev_type = YAML_SCALAR_EVENT, ev_tag = tag, ev_value = v, ev_line = 0, ev_column = 0\<rparr>"

definition plain_event :: "yaml_event_type \<Rightarrow> yaml_event" where
  "plain_event t = \<lparr>ev_type = t, ev_tag = None, ev_value = [], ev_line = 0, ev_column = 0\<rparr>"

definition two_hosts :: "string \<Rightarrow> sockaddr list" where
  "two_hosts h =
     (if h = ''one'' then [\<lparr>sa_family = 2, sa_data = ''a''\<rparr>]
      else if h = ''two'' then [\<lparr>sa_family = 2, sa_data = ''a''\<rparr>, \<lparr>sa_family = 10, sa_data = ''b''\<rparr>]
      else [])"

section \<open>Predicates used in the statements\<close>

text \<open>
  A \<open>parse_object\<close> that never reports an exhausted loop bound and returns with
  strictly fewer events pending.
\<close>

definition consuming :: "('s \<Rightarrow> yaml_parser \<Rightarrow> 's parsed) \<Rightarrow> bool" where
  "consuming po =
     (\<forall>s p. po s p \<noteq> OutOfFuel \<and> (\<forall>r s' p'. po s p = Ok (r, s', p') \<longrightarrow> length p' < length p))"

text \<open>An exit, if it is one, has status 127.\<close>

definition ok127 :: "'a result \<Rightarrow> bool" where
  "ok127 r = (case r of Exit d st \<Rightarrow> st = 127 | _ \<Rightarrow> True)"

text \<open>No allocation of the tree builder's arrays fails.\<close>

definition realloc_succeeds :: "'s os \<Rightarrow> bool" where
  "realloc_succeeds os = (\<forall>s n. \<not> realloc_fails os s n)"

text \<open>The socket type that \<open>parse_socket\<close> chooses for a \<open>type\<close> attribute.\<close>

definition socket_type_of :: "string \<Rightarrow> socktype option" where
  "socket_type_of typestr =
     (if typestr = ''dgram'' then Some SOCK_DGRAM
      else if typestr = ''seqpacket'' then Some SOCK_SEQPACKET
      else if typestr = ''stream'' then Some SOCK_STREAM
      else None)"

text \<open>
  The words of the specification for an int-tagged token: the base its prefix selects,
  the remainder after the prefix, and "the whole remainder converts in range" for the
  result of a conversion.
\<close>

definition int_token_base :: "string \<Rightarrow> nat" where
  "int_token_base tok = (if take 2 tok = ''0o'' then 8 else if take 2 tok = ''0x'' then 16 else 10)"

definition int_token_rest :: "string \<Rightarrow> string" where
  "int_token_rest tok = (if take 2 tok = ''0o'' \<or> take 2 tok = ''0x'' then drop 2 tok else tok)"

definition whole_in_range :: "string \<Rightarrow> int \<times> nat \<times> int \<Rightarrow> bool" where
  "whole_in_range s r = (snd (snd r) = 0 \<and> fst (snd r) = length s)"

text \<open>
  Two readings of "the token is a numeral": a non-empty run of decimal digits, with the
  number it denotes, and what \<open>strtoul\<close> takes in base 10: optional white space, an
  optional sign, then one or more decimal digits.
\<close>

definition decimal_numeral :: "string \<Rightarrow> bool" where
  "decimal_numeral tok = (tok \<noteq> [] \<and> list_all (is_digit 10) tok)"

definition decimal_value :: "string \<Rightarrow> nat" where
  "decimal_value tok = foldl (\<lambda>a c. a * 10 + ((of_char c :: nat) - 48)) 0 tok"

definition strtoul_numeral :: "string \<Rightarrow> bool" where
  "strtoul_numeral tok =
     (let s1 = dropWhile isspace tok;
          s2 = (case s1 of c # r \<Rightarrow> if c = CHR ''-'' \<or> c = CHR ''+'' then r else s1 | [] \<Rightarrow> [])
      in s2 \<noteq> [] \<and> list_all (is_digit 10) s2)"

text \<open>
  The entries of a mapping: from \<open>(s, p)\<close>, \<open>po\<close> returns the key node and then the
  value (a node or the null pointer) of each pair of the list in turn; the result is the
  state and the events that are left then.
\<close>

primrec parsed_entries ::
  "('s \<Rightarrow> yaml_parser \<Rightarrow> 's parsed) \<Rightarrow> 's \<Rightarrow> yaml_parser \<Rightarrow> (argdata \<times> argdata option) list \<Rightarrow>
   ('s \<times> yaml_parser) option" where
  "parsed_entries po s p [] = Some (s, p)"
| "parsed_entries po s p (kv # kvs) =
     (case po s p of
        Ok (Some k, s1, p1) \<Rightarrow>
          if k = fst kv
          then (case po s1 p1 of
                  Ok (v, s2, p2) \<Rightarrow> if v = snd kv then parsed_entries po s2 p2 kvs else None
                | _ \<Rightarrow> None)
          else None
      | _ \<Rightarrow> None)"


section \<open>The loop bounds suffice\<close>

lemma bind_result_simps [simp]:
  "bind_result (Ok x) f = f x"
  "bind_result (Exit d st) f = Exit d st"
  "bind_result Crash f = Crash"
  "bind_result OutOfFuel f = OutOfFuel"
  by (simp_all add: bind_result_def)

lemma consumingD:
  "consuming po \<Longrightarrow> po s p \<noteq> OutOfFuel"
  "consuming po \<Longrightarrow> po s p = Ok (r, s', p') \<Longrightarrow> length p' < length p"
  by (auto simp: consuming_def)

lemma get_event_cases:
  "get_event p \<noteq> OutOfFuel \<and> get_event p \<noteq> Crash \<and>
   (\<forall>e p'. get_event p = Ok (e, p') \<longrightarrow> (p = [] \<and> e = no_event \<and> p' = []) \<or> length p' < length p)"
  by (induction p rule: get_event.induct) auto

lemma bind_fuel:
  "bind_result r f = OutOfFuel \<longleftrightarrow> r = OutOfFuel \<or> (\<exists>x. r = Ok x \<and> f x = OutOfFuel)"
  by (cases r) auto

lemma bind_Ok:
  "bind_result r f = Ok y \<longleftrightarrow> (\<exists>x. r = Ok x \<and> f x = Ok y)"
  by (cases r) auto

lemma exit_parse_error_neq [simp]:
  "exit_parse_error e m a \<noteq> OutOfFuel" "exit_parse_error e m a \<noteq> Ok x" "exit_parse_error e m a \<noteq> Crash"
  by (simp_all add: exit_parse_error_def)


lemma parse_map_consuming:
  "consuming po \<Longrightarrow> length p < k \<Longrightarrow>
   parse_map os po k s p keys vals space \<noteq> OutOfFuel \<and>
   (\<forall>r s' p'. parse_map os po k s p keys vals space = Ok (r, s', p') \<longrightarrow> length p' < length p)"
proof (induction k arbitrary: s p keys vals space)
  case 0
  then show ?case by simp
next
  case (Suc k)
  show ?case
  proof (cases "po s p")
    case (Ok x)
    obtain ad s1 p1 where x: "x = (ad, s1, p1)" by (cases x) auto
    have l1: "length p1 < length p" using consumingD(2)[OF Suc.prems(1)] Ok x by blast
    show ?thesis
    proof (cases ad)
      case None
      then show ?thesis using Ok x l1 by simp
    next
      case (Some key)
      show ?thesis
      proof (cases "length keys = space \<and> realloc_fails os s1 (grown space * 8)")
        case True
        then show ?thesis using Ok x Some by simp
      next
        case False
        show ?thesis
        proof (cases "po s1 p1")
          case (Ok y)
          obtain v s2 p2 where y: "y = (v, s2, p2)" by (cases y) auto
          have l2: "length p2 < length p1"
            using consumingD(2)[OF Suc.prems(1), of s1 p1] Ok y by simp
          have "length p2 < k" using l1 l2 Suc.prems by simp
          from Suc.IH[OF Suc.prems(1) this]
          have ih1: "\<And>ks vs sp. parse_map os po k s2 p2 ks vs sp \<noteq> OutOfFuel"
            and ih2: "\<And>ks vs sp r s' p'. parse_map os po k s2 p2 ks vs sp = Ok (r, s', p')
                       \<Longrightarrow> length p' < length p2"
            by blast+
          show ?thesis
            using \<open>po s p = Ok x\<close> x Some Ok y l1 l2 ih1 False by (auto dest!: ih2)
        next
          case OutOfFuel
          then show ?thesis using consumingD(1)[OF Suc.prems(1), of s1 p1] by simp
        qed (use \<open>po s p = Ok x\<close> x Some False in auto)
      qed
    qed
  next
    case OutOfFuel
    then show ?thesis using consumingD(1)[OF Suc.prems(1)] by simp
  qed simp_all
qed

lemma parse_seq_consuming:
  "consuming po \<Longrightarrow> length p < k \<Longrightarrow>
   parse_seq os po k s p entries space \<noteq> OutOfFuel \<and>
   (\<forall>r s' p'. parse_seq os po k s p entries space = Ok (r, s', p') \<longrightarrow> length p' < length p)"
proof (induction k arbitrary: s p entries space)
  case 0
  then show ?case by simp
next
  case (Suc k)
  show ?case
  proof (cases "po s p")
    case (Ok x)
    obtain ad s1 p1 where x: "x = (ad, s1, p1)" by (cases x) auto
    have l1: "length p1 < length p" using consumingD(2)[OF Suc.prems(1)] Ok x by blast
    show ?thesis
    proof (cases ad)
      case None
      then show ?thesis using Ok x l1 by simp
    next
      case (Some e)
      have "length p1 < k" using l1 Suc.prems by simp
      from Suc.IH[OF Suc.prems(1) this]
      have ih1: "\<And>es sp. parse_seq os po k s1 p1 es sp \<noteq> OutOfFuel"
        and ih2: "\<And>es sp r s' p'. parse_seq os po k s1 p1 es sp = Ok (r, s', p')
                   \<Longrightarrow> length p' < length p1"
        by blast+
      show ?thesis
        using Ok x Some l1 ih1 by (auto dest!: ih2)
    qed
  next
    case OutOfFuel
    then show ?thesis using consumingD(1)[OF Suc.prems(1)] by simp
  qed simp_all
qed

lemma parse_attribute_consuming:
  "consuming po \<Longrightarrow>
   parse_attribute lc po event key s p \<noteq> OutOfFuel \<and>
   (\<forall>k v s' p'. parse_attribute lc po event key s p = Ok (k, v, s', p') \<longrightarrow> length p' < length p)"
  unfolding parse_attribute_def
  by (auto simp: bind_fuel bind_Ok argdata_get_str_c_def consuming_def
           split: option.splits argdata.splits sum.splits)

lemma attribute_str_fuel [simp]: "attribute_str lc event msg v \<noteq> OutOfFuel"
  by (auto simp: attribute_str_def bind_fuel argdata_get_str_c_def
           split: option.splits argdata.splits sum.splits)

lemma parse_file_open_fuel [simp]: "parse_file_open lc os event s path \<noteq> OutOfFuel"
  by (auto simp: parse_file_open_def split: option.splits sum.splits prod.splits)

lemma socket_address_fuel [simp]: "socket_address lc os event s type b \<noteq> OutOfFuel"
  by (auto simp: socket_address_def split: option.splits sum.splits prod.splits)

lemma parse_socket_bind_fuel [simp]: "parse_socket_bind lc os event s typestr bindstr \<noteq> OutOfFuel"
  by (auto simp: parse_socket_bind_def bind_fuel split: option.splits sum.splits prod.splits)

lemma parse_file_consuming:
  "consuming po \<Longrightarrow> length p < k \<Longrightarrow>
   parse_file lc os po k event s p path \<noteq> OutOfFuel \<and>
   (\<forall>r s' p'. parse_file lc os po k event s p path = Ok (r, s', p') \<longrightarrow> length p' < length p)"
proof (induction k arbitrary: s p path)
  case 0
  then show ?case by simp
next
  case (Suc k)
  show ?case
  proof (cases "po s p")
    case (Ok x)
    obtain ad s1 p1 where x: "x = (ad, s1, p1)" by (cases x) auto
    have l1: "length p1 < length p" using consumingD(2)[OF Suc.prems(1)] Ok x by blast
    show ?thesis
    proof (cases ad)
      case None
      then show ?thesis using Ok x l1 by (auto simp: bind_fuel bind_Ok)
    next
      case (Some key)
      note pa = parse_attribute_consuming[OF Suc.prems(1), of lc event key s1 p1]
      show ?thesis
      proof (cases "parse_attribute lc po event key s1 p1")
        case (Ok y)
        obtain keystr v s2 p2 where y: "y = (keystr, v, s2, p2)" by (cases y) auto
        have l2: "length p2 < length p1" using pa Ok y by blast
        have "length p2 < k" using l1 l2 Suc.prems by simp
        from Suc.IH[OF Suc.prems(1) this]
        have ih1: "\<And>s path. parse_file lc os po k event s p2 path \<noteq> OutOfFuel"
          and ih2: "\<And>s path r s' p'. parse_file lc os po k event s p2 path = Ok (r, s', p')
                     \<Longrightarrow> length p' < length p2"
          by blast+
        show ?thesis
          using \<open>po s p = Ok x\<close> x Some Ok y l1 l2 ih1
          by (auto simp: bind_fuel bind_Ok dest!: ih2)
      next
        case OutOfFuel
        then show ?thesis using pa by simp
      qed (use \<open>po s p = Ok x\<close> x Some in simp_all)
    qed
  next
    case OutOfFuel
    then show ?thesis using consumingD(1)[OF Suc.prems(1)] by simp
  qed simp_all
qed

lemma parse_socket_consuming:
  "consuming po \<Longrightarrow> length p < k \<Longrightarrow>
   parse_socket lc os po k event s p typestr bindstr \<noteq> OutOfFuel \<and>
   (\<forall>r s' p'. parse_socket lc os po k event s p typestr bindstr = Ok (r, s', p') \<longrightarrow>
      length p' < length p)"
proof (induction k arbitrary: s p typestr bindstr)
  case 0
  then show ?case by simp
next
  case (Suc k)
  show ?case
  proof (cases "po s p")
    case (Ok x)
    obtain ad s1 p1 where x: "x = (ad, s1, p1)" by (cases x) auto
    have l1: "length p1 < length p" using consumingD(2)[OF Suc.prems(1)] Ok x by blast
    show ?thesis
    proof (cases ad)
      case None
      then show ?thesis using Ok x l1 by (auto simp: bind_fuel bind_Ok)
    next
      case (Some key)
      note pa = parse_attribute_consuming[OF Suc.prems(1), of lc event key s1 p1]
      show ?thesis
      proof (cases "parse_attribute lc po event key s1 p1")
        case (Ok y)
        obtain keystr v s2 p2 where y: "y = (keystr, v, s2, p2)" by (cases y) auto
        have l2: "length p2 < length p1" using pa Ok y by blast
        have "length p2 < k" using l1 l2 Suc.prems by simp
        from Suc.IH[OF Suc.prems(1) this]
        have ih1: "\<And>s t b. parse_socket lc os po k event s p2 t b \<noteq> OutOfFuel"
          and ih2: "\<And>s t b r s' p'. parse_socket lc os po k event s p2 t b = Ok (r, s', p')
                     \<Longrightarrow> length p' < length p2"
          by blast+
        show ?thesis
          using \<open>po s p = Ok x\<close> x Some Ok y l1 l2 ih1
          by (auto simp: bind_fuel bind_Ok dest!: ih2)
      next
        case OutOfFuel
        then show ?thesis using pa by simp
      qed (use \<open>po s p = Ok x\<close> x Some in simp_all)
    qed
  next
    case OutOfFuel
    then show ?thesis using consumingD(1)[OF Suc.prems(1)] by simp
  qed simp_all
qed

lemma parse_bool_fuel [simp]: "parse_bool event \<noteq> OutOfFuel"
  by (simp add: parse_bool_def Let_def)

lemma parse_int_fuel [simp]: "parse_int lc event \<noteq> OutOfFuel"
  by (simp add: parse_int_def Let_def split: prod.splits)

lemma parse_fd_number_fuel [simp]: "parse_fd_number lc event \<noteq> OutOfFuel"
  by (simp add: parse_fd_number_def Let_def split: prod.splits)

lemma parse_fd_fuel [simp]: "parse_fd lc os s event \<noteq> OutOfFuel"
  by (auto simp: parse_fd_def bind_fuel split: option.splits)

lemma parse_scalar_fuel [simp]: "parse_scalar lc os s event \<noteq> OutOfFuel"
  by (simp add: parse_scalar_def parse_null_def split: option.splits)


lemma parse_event_consuming:
  assumes "consuming po"
  shows "parse_event lc os po event s p \<noteq> OutOfFuel \<and>
   (\<forall>r s' p'. parse_event lc os po event s p = Ok (r, s', p') \<longrightarrow> length p' \<le> length p)"
proof -
  have lp: "length p < Suc (length p)" by simp
  note m = parse_map_consuming[OF assms lp, of os s "[]" "[]" 0]
  note q = parse_seq_consuming[OF assms lp, of os s "[]" 0]
  note f = parse_file_consuming[OF assms lp, of lc os event s None]
  note k = parse_socket_consuming[OF assms lp, of lc os event s "''stream''" None]
  note o = consumingD(1)[OF assms, of s p]
  have o2: "\<And>r s' p'. po s p = Ok (r, s', p') \<Longrightarrow> length p' \<le> length p"
    using consumingD(2)[OF assms, of s p] by (simp add: less_imp_le)
  consider "ev_type event = YAML_STREAM_START_EVENT \<or> ev_type event = YAML_DOCUMENT_START_EVENT"
    | "ev_type event = YAML_MAPPING_START_EVENT" | "ev_type event = YAML_SCALAR_EVENT"
    | "ev_type event = YAML_SEQUENCE_START_EVENT"
    | "ev_type event \<in> {YAML_MAPPING_END_EVENT, YAML_SEQUENCE_END_EVENT, YAML_NO_EVENT,
        YAML_STREAM_END_EVENT, YAML_DOCUMENT_END_EVENT, YAML_ALIAS_EVENT}"
    by (cases "ev_type event") auto
  then show ?thesis
  proof cases
    case 1
    then show ?thesis using o o2 by (auto simp: parse_event_def)
  next
    case 2
    then show ?thesis using m f k
      by (simp add: parse_event_def less_imp_le split: option.splits del: parse_map.simps
            parse_file.simps parse_socket.simps)
  next
    case 3
    then show ?thesis by (auto simp: parse_event_def bind_fuel bind_Ok)
  next
    case 4
    then show ?thesis using q
      by (simp add: parse_event_def less_imp_le split: option.splits del: parse_seq.simps)
  next
    case 5
    then show ?thesis by (auto simp: parse_event_def)
  qed
qed

lemma parse_object_consuming: "consuming (parse_object lc os n)"
proof (induction n)
  case 0
  then show ?case by (simp add: consuming_def)
next
  case (Suc n)
  show ?case
    unfolding consuming_def
  proof (intro allI)
    fix s :: 'a and p :: yaml_parser
    show "parse_object lc os (Suc n) s p \<noteq> OutOfFuel \<and>
          (\<forall>r s' p'. parse_object lc os (Suc n) s p = Ok (r, s', p') \<longrightarrow> length p' < length p)"
    proof (cases "get_event p")
      case (Ok x)
      obtain event p0 where x: "x = (event, p0)" by (cases x) auto
      from get_event_cases[of p] Ok x
      consider "p = []" "event = no_event" "p0 = []" | "length p0 < length p" by blast
      then show ?thesis
      proof cases
        case 1
        then show ?thesis using Ok x
          by (simp add: parse_event_def no_event_def)
      next
        case 2
        from parse_event_consuming[OF Suc, of lc os event s p0] show ?thesis
          using Ok x 2 by auto
      qed
    qed (use get_event_cases[of p] in simp_all)
  qed
qed


section \<open>Every exit has status 127\<close>

lemma ok127_simps [simp]:
  "ok127 (Ok x)" "ok127 Crash" "ok127 OutOfFuel" "ok127 (Exit d st) = (st = 127)"
  "ok127 (exit_parse_error e m a)"
  by (simp_all add: ok127_def exit_parse_error_def)

lemma ok127_bind:
  "ok127 r \<Longrightarrow> (\<And>x. r = Ok x \<Longrightarrow> ok127 (f x)) \<Longrightarrow> ok127 (bind_result r f)"
  by (cases r) auto


lemma parse_int_ok127 [simp]: "ok127 (parse_int lc event)"
  by (simp add: parse_int_def Let_def split: prod.splits)

lemma parse_fd_ok127 [simp]: "ok127 (parse_fd lc os s event)"
  unfolding parse_fd_def
  by (rule ok127_bind) (auto simp: parse_fd_number_def Let_def split: prod.splits option.splits)

lemma parse_scalar_ok127 [simp]: "ok127 (parse_scalar lc os s event)"
  by (simp add: parse_scalar_def parse_null_def parse_bool_def Let_def split: option.splits)

lemma argdata_get_str_c_ok127 [simp]: "ok127 (argdata_get_str_c v)"
  by (simp add: argdata_get_str_c_def split: option.splits argdata.splits)

lemma attribute_str_ok127 [simp]: "ok127 (attribute_str lc event msg v)"
  unfolding attribute_str_def by (rule ok127_bind) (auto split: sum.splits)


lemma parse_file_open_ok127 [simp]: "ok127 (parse_file_open lc os event s path)"
  by (simp add: parse_file_open_def split: option.splits prod.splits sum.splits)

lemma socket_address_ok127 [simp]: "ok127 (socket_address lc os event s type b)"
  by (simp add: socket_address_def split: option.splits prod.splits sum.splits)

lemma parse_socket_bind_ok127 [simp]: "ok127 (parse_socket_bind lc os event s typestr bindstr)"
  unfolding parse_socket_bind_def
  by (intro ok127_bind) (auto split: option.splits prod.splits sum.splits intro!: ok127_bind)













section \<open>Concrete conversions and the size arithmetic\<close>

lemmas range_defs = INTMAX_MAX_def INTMAX_MIN_def UINTMAX_MAX_def INT_MAX_def ERANGE_def

lemma scan_examples:
  "strto_scan 10 ''42'' = Some (False, 42, 2)"
  "strto_scan 16 ''1F'' = Some (False, 31, 2)"
  "strto_scan 8 ''17'' = Some (False, 15, 2)"
  "strto_scan 10 ''-5'' = Some (True, 5, 2)"
  "strto_scan 10 ''3'' = Some (False, 3, 1)"
  by code_simp+

lemma size_sub_le: "b \<le> a \<Longrightarrow> a < 2 ^ 64 \<Longrightarrow> size_sub a b = a - b"
  by (simp add: size_sub_def nat_diff_distrib')


lemma eager_subfield_contract: "subfield_contract eager_subfield"
  by (auto simp: subfield_contract_def eager_subfield_def EINVAL_def split: list.splits)

lemma c_str_examples:
  "c_str ''stdout'' = ''stdout''" "c_str ''stderr'' = ''stderr''"
  "c_str ''true'' = ''true''" "c_str ''false'' = ''false''"
  "c_str ''3'' = ''3''" "c_str '' 1'' = '' 1''" "c_str ''12a'' = ''12a''"
  by (simp_all add: c_str_def)

section \<open>What strtoul accepts\<close>

lemma scan_digits_count:
  "snd (scan_digits b s acc k) = k + length (takeWhile (is_digit b) s)"
  by (induction s arbitrary: acc k) (auto simp: is_digit_def split: option.splits)

lemma scan_digits_all:
  assumes "snd (scan_digits b s 0 0) = length s"
  shows "list_all (is_digit b) s"
proof -
  have "length (takeWhile (is_digit b) s) = length s"
    using assms by (simp add: scan_digits_count)
  then have "takeWhile (is_digit b) s = s"
    by (metis takeWhile_dropWhile_id append_eq_conv_conj length_0_conv length_drop diff_self_eq_0 drop_all order_refl append_Nil2 self_append_conv)
  then show ?thesis
    by (simp add: takeWhile_eq_all_conv list_all_iff)
qed

lemma strto_scan_whole:
  assumes "strto_scan 10 tok = Some (neg, m, n)" and "n = length tok"
  shows "strtoul_numeral tok"
proof -
  define ws where "ws = length (takeWhile isspace tok)"
  define s1 where "s1 = drop ws tok"
  define ng where "ng = (case s1 of c # _ \<Rightarrow> c = CHR ''-'' | [] \<Rightarrow> False)"
  define sg :: nat where
    "sg = (case s1 of c # _ \<Rightarrow> if c = CHR ''-'' \<or> c = CHR ''+'' then 1 else 0 | [] \<Rightarrow> 0)"
  define s2 where "s2 = drop sg s1"
  define px :: nat where "px = (if (10::nat) = 16 \<and> has_hex_prefix s2 then 2 else 0)"
  define s3 where "s3 = drop px s2"
  define r where "r = scan_digits 10 s3 0 0"
  have s1d: "s1 = dropWhile isspace tok"
    by (simp add: s1_def ws_def dropWhile_eq_drop)
  have px0: "px = 0" by (simp add: px_def)
  have s32: "s3 = s2" by (simp add: s3_def px0)
  have "strto_scan 10 tok = (if snd r = 0 then None else Some (ng, fst r, ws + sg + px + snd r))"
    by (simp only: strto_scan_def Let_def ws_def s1_def ng_def sg_def s2_def px_def s3_def r_def)
  with assms(1) have nz: "snd r \<noteq> 0" and n: "n = ws + sg + snd r"
    by (auto simp: px0 split: if_splits)
  note r_def = r_def[unfolded s32]
  have wsl: "ws \<le> length tok" by (simp add: ws_def length_takeWhile_le)
  have sgl: "sg \<le> length s1" by (auto simp: sg_def split: list.splits)
  have l2: "length s2 = length tok - ws - sg" by (simp add: s2_def s1_def)
  have le: "snd r \<le> length s2"
    by (simp add: r_def scan_digits_count length_takeWhile_le)
  have "length s1 = length tok - ws" by (simp add: s1_def)
  with n assms(2) wsl sgl l2 le have "snd r = length s2" by linarith
  then have all: "list_all (is_digit 10) s2" unfolding r_def by (rule scan_digits_all)
  have ne: "s2 \<noteq> []" using nz \<open>snd r = length s2\<close> by auto
  have s2c: "s2 = (case s1 of c # r \<Rightarrow> if c = CHR ''-'' \<or> c = CHR ''+'' then r else s1 | [] \<Rightarrow> [])"
    by (auto simp: s2_def sg_def split: list.splits)
  show ?thesis
    unfolding strtoul_numeral_def Let_def s1d[symmetric] s2c[symmetric] using ne all by simp
qed

lemma scan_space_one: "strto_scan 10 '' 1'' = Some (False, 1, 2)"
  by code_simp

lemma scan_one: "strto_scan 10 ''1'' = Some (False, 1, 1)"
  by code_simp


lemma c_str_id: "CHR 0x00 \<notin> set s \<Longrightarrow> c_str s = s"
  by (simp add: c_str_def takeWhile_eq_all_conv) metis

lemma is_digit_decimal:
  assumes "is_digit 10 c"
  shows "digit_of c = Some ((of_char c :: nat) - 48)"
    and "\<not> isspace c" and "c \<noteq> CHR ''-''" and "c \<noteq> CHR ''+''"
proof -
  have r: "48 \<le> (of_char c :: nat) \<and> (of_char c :: nat) \<le> 57"
    using assms by (auto simp: is_digit_def digit_of_def Let_def split: if_splits)
  show "digit_of c = Some ((of_char c :: nat) - 48)"
    using r by (simp add: digit_of_def)
  show "\<not> isspace c" using r by (auto simp: isspace_def)
  show "c \<noteq> CHR ''-''" using r by auto
  show "c \<noteq> CHR ''+''" using r by auto
qed

lemma scan_digits_decimal:
  "list_all (is_digit 10) tok \<Longrightarrow>
   scan_digits 10 tok acc k =
     (foldl (\<lambda>a c. a * 10 + ((of_char c :: nat) - 48)) acc tok, k + length tok)"
proof (induction tok arbitrary: acc k)
  case Nil
  then show ?case by simp
next
  case (Cons c cs)
  have d: "is_digit 10 c" and r: "list_all (is_digit 10) cs" using Cons.prems by simp_all
  have lt: "(of_char c :: nat) - 48 < 10"
    using d by (auto simp: is_digit_def digit_of_def Let_def split: if_splits)
  show ?case
    using Cons.IH[OF r] lt by (simp add: is_digit_decimal(1)[OF d])
qed

lemma strto_scan_decimal:
  assumes "decimal_numeral tok"
  shows "strto_scan 10 tok = Some (False, decimal_value tok, length tok)"
proof -
  obtain c cs where tok: "tok = c # cs" and d: "is_digit 10 c" and all: "list_all (is_digit 10) tok"
    using assms by (cases tok) (auto simp: decimal_numeral_def)
  note f = is_digit_decimal[OF d]
  have sd: "scan_digits 10 tok 0 0 = (decimal_value tok, length tok)"
    using scan_digits_decimal[OF all, of 0 0] by (simp add: decimal_value_def)
  have "strto_scan 10 (c # cs) = Some (False, decimal_value (c # cs), length (c # cs))"
    unfolding strto_scan_def using f(2,3,4) sd[unfolded tok]
    by (simp add: Let_def del: scan_digits.simps)
  then show ?thesis by (simp add: tok)
qed

section \<open>The entries of a mapping\<close>

lemma parsed_entries_Cons:
  "parsed_entries po s p (kv # kvs) = Some r \<longleftrightarrow>
     (\<exists>s1 p1 s2 p2. po s p = Ok (Some (fst kv), s1, p1) \<and> po s1 p1 = Ok (snd kv, s2, p2) \<and>
        parsed_entries po s2 p2 kvs = Some r)"
  by (auto split: result.splits option.splits prod.splits if_splits)

lemma parse_map_ok_sound:
  "parse_map os po k s p keys vals space = Ok (r, s', p') \<Longrightarrow>
   \<exists>kvs s1 p1. parsed_entries po s p kvs = Some (s1, p1) \<and> po s1 p1 = Ok (None, s', p') \<and>
      r = Some (AD_MAP (keys @ map fst kvs) (vals @ map snd kvs))"
proof (induction k arbitrary: s p keys vals space)
  case 0
  then show ?case by simp
next
  case (Suc k)
  from Suc.prems obtain ad s1 p1 where po1: "po s p = Ok (ad, s1, p1)"
    by (cases "po s p") auto
  show ?case
  proof (cases ad)
    case None
    have "parsed_entries po s p [] = Some (s, p)" by simp
    moreover have "po s p = Ok (None, s', p') \<and> r = Some (AD_MAP keys vals)"
      using Suc.prems po1 None by (simp add: argdata_create_map_def)
    ultimately show ?thesis by (intro exI[of _ "[]"] exI[of _ s] exI[of _ p]) simp
  next
    case (Some key)
    from Suc.prems po1 Some obtain v s2 p2 where po2: "po s1 p1 = Ok (v, s2, p2)"
      by (cases "po s1 p1") (auto split: if_splits)
    have rec: "parse_map os po k s2 p2 (keys @ [key]) (vals @ [v])
                 (if length keys = space then grown space else space) = Ok (r, s', p')"
      using Suc.prems po1 Some po2 by (auto split: if_splits)
    from Suc.IH[OF rec] obtain kvs t1 q1 where
      e: "parsed_entries po s2 p2 kvs = Some (t1, q1)" and
      f: "po t1 q1 = Ok (None, s', p')" and
      g: "r = Some (AD_MAP ((keys @ [key]) @ map fst kvs) ((vals @ [v]) @ map snd kvs))"
      by blast
    have "parsed_entries po s p ((key, v) # kvs) = Some (t1, q1)"
      using po1 Some po2 e by simp
    with f g show ?thesis
      by (intro exI[of _ "(key, v) # kvs"] exI[of _ t1] exI[of _ q1]) simp
  qed
qed

lemma parsed_entries_length:
  assumes "consuming po"
  shows "parsed_entries po s p kvs = Some (s1, p1) \<Longrightarrow> length p1 \<le> length p"
proof (induction kvs arbitrary: s p)
  case Nil
  then show ?case by simp
next
  case (Cons kv kvs)
  from Cons.prems obtain t1 q1 t2 q2 where
    a: "po s p = Ok (Some (fst kv), t1, q1)" and b: "po t1 q1 = Ok (snd kv, t2, q2)" and
    c: "parsed_entries po t2 q2 kvs = Some (s1, p1)"
    unfolding parsed_entries_Cons by blast
  have "length q1 < length p" "length q2 < length q1"
    using consumingD[OF assms] a b by blast+
  with Cons.IH[OF c] show ?case by simp
qed

lemma parse_map_ok_complete:
  assumes "consuming po" and "realloc_succeeds os"
  shows "parsed_entries po s p kvs = Some (s1, p1) \<Longrightarrow> po s1 p1 = Ok (None, s', p') \<Longrightarrow>
         length p < k \<Longrightarrow>
         parse_map os po k s p keys vals space =
           Ok (Some (AD_MAP (keys @ map fst kvs) (vals @ map snd kvs)), s', p')"
proof (induction kvs arbitrary: s p keys vals space k)
  case Nil
  then obtain k' where k: "k = Suc k'" by (cases k) auto
  show ?case using Nil.prems by (simp add: k argdata_create_map_def)
next
  case (Cons kv kvs)
  from Cons.prems(1) obtain t1 q1 t2 q2 where
    a: "po s p = Ok (Some (fst kv), t1, q1)" and b: "po t1 q1 = Ok (snd kv, t2, q2)" and
    c: "parsed_entries po t2 q2 kvs = Some (s1, p1)"
    unfolding parsed_entries_Cons by blast
  obtain k' where k: "k = Suc k'" using Cons.prems(3) by (cases k) auto
  have "length q1 < length p" "length q2 < length q1"
    using consumingD[OF assms(1)] a b by blast+
  then have lk: "length q2 < k'" using Cons.prems(3) k by simp
  have nf: "\<not> realloc_fails os t1 (grown space * 8)"
    using assms(2) by (simp add: realloc_succeeds_def)
  show ?case
    unfolding k
    using Cons.IH[OF c Cons.prems(2) lk, of "keys @ [fst kv]" "vals @ [snd kv]"] a b nf
    by simp
qed

lemma parse_map_exit_sound:
  "parse_map os po k s p keys vals space = Exit d st \<Longrightarrow>
   \<exists>kvs s1 p1. parsed_entries po s p kvs = Some (s1, p1) \<and>
      (po s1 p1 = Exit d st \<or> (\<exists>key s2 p2. po s1 p1 = Ok (Some key, s2, p2) \<and> po s2 p2 = Exit d st))"
proof (induction k arbitrary: s p keys vals space)
  case 0
  then show ?case by simp
next
  case (Suc k)
  show ?case
  proof (cases "po s p")
    case (Exit d' st')
    then have "po s p = Exit d st" using Suc.prems by simp
    then show ?thesis by (intro exI[of _ "[]"] exI[of _ s] exI[of _ p]) simp
  next
    case (Ok x)
    obtain ad s1 p1 where x: "x = (ad, s1, p1)" by (cases x) auto
    from Suc.prems Ok x obtain key where ad: "ad = Some key"
      by (cases ad) auto
    show ?thesis
    proof (cases "po s1 p1")
      case (Exit d' st')
      then have "po s1 p1 = Exit d st" using Suc.prems Ok x ad by (auto split: if_splits)
      then show ?thesis using Ok x ad
        by (intro exI[of _ "[]"] exI[of _ s] exI[of _ p]) simp
    next
      case Ok2: (Ok y)
      obtain v s2 p2 where y: "y = (v, s2, p2)" by (cases y) auto
      have rec: "parse_map os po k s2 p2 (keys @ [key]) (vals @ [v])
                 (if length keys = space then grown space else space) = Exit d st"
        using Suc.prems Ok x ad Ok2 y by (auto split: if_splits)
      from Suc.IH[OF rec] obtain kvs t1 q1 where
        e: "parsed_entries po s2 p2 kvs = Some (t1, q1)" and
        f: "po t1 q1 = Exit d st \<or> (\<exists>key s2 p2. po t1 q1 = Ok (Some key, s2, p2) \<and> po s2 p2 = Exit d st)"
        by blast
      have "parsed_entries po s p ((key, v) # kvs) = Some (t1, q1)"
        using Ok x ad Ok2 y e by simp
      with f show ?thesis
        by (intro exI[of _ "(key, v) # kvs"] exI[of _ t1] exI[of _ q1]) simp
    next
      case Crash
      then show ?thesis using Suc.prems Ok x ad by (auto split: if_splits)
    next
      case OutOfFuel
      then show ?thesis using Suc.prems Ok x ad by (auto split: if_splits)
    qed
  next
    case Crash
    then show ?thesis using Suc.prems by simp
  next
    case OutOfFuel
    then show ?thesis using Suc.prems by simp
  qed
qed

lemma parse_map_exit_complete:
  assumes "consuming po" and "realloc_succeeds os"
  shows "parsed_entries po s p kvs = Some (s1, p1) \<Longrightarrow>
         po s1 p1 = Exit d st \<or> (\<exists>key s2 p2. po s1 p1 = Ok (Some key, s2, p2) \<and> po s2 p2 = Exit d st) \<Longrightarrow>
         length p < k \<Longrightarrow>
         parse_map os po k s p keys vals space = Exit d st"
proof (induction kvs arbitrary: s p keys vals space k)
  case Nil
  then obtain k' where k: "k = Suc k'" by (cases k) auto
  have nf: "\<not> realloc_fails os t n" for t n
    using assms(2) by (simp add: realloc_succeeds_def)
  from Nil.prems(1) have sp: "s1 = s" "p1 = p" by simp_all
  show ?case using Nil.prems(2) unfolding sp k by (auto simp: nf)
next
  case (Cons kv kvs)
  from Cons.prems(1) obtain t1 q1 t2 q2 where
    a: "po s p = Ok (Some (fst kv), t1, q1)" and b: "po t1 q1 = Ok (snd kv, t2, q2)" and
    c: "parsed_entries po t2 q2 kvs = Some (s1, p1)"
    unfolding parsed_entries_Cons by blast
  obtain k' where k: "k = Suc k'" using Cons.prems(3) by (cases k) auto
  have "length q1 < length p" "length q2 < length q1"
    using consumingD[OF assms(1)] a b by blast+
  then have lk: "length q2 < k'" using Cons.prems(3) k by simp
  have nf: "\<not> realloc_fails os t1 (grown space * 8)"
    using assms(2) by (simp add: realloc_succeeds_def)
  show ?case
    unfolding k
    using Cons.IH[OF c Cons.prems(2) lk, of "keys @ [fst kv]" "vals @ [snd kv]"] a b nf
    by simp
qed

lemma parse_object_generic_mapping:
  assumes "ev_type start = YAML_MAPPING_START_EVENT"
    and "ev_tag start = None \<or> ev_tag start = Some YAML_MAP_TAG"
  shows "parse_object lc os (Suc d) s (Event start # p) =
           parse_map os (parse_object lc os d) (Suc (length p)) s p [] [] 0"
  using assms by (auto simp: parse_event_def simp del: parse_map.simps)

section \<open>Runs of the tree builder\<close>

lemma sample_realloc [simp]: "realloc_fails (sample_os hosts) s n = False"
  by (simp add: sample_os_def)

lemma sample_realloc_succeeds: "realloc_succeeds (sample_os hosts)"
  by (simp add: realloc_succeeds_def)

lemma sample_events:
  "ev_type (scalar_event tag tok) = YAML_SCALAR_EVENT"
  "ev_tag (scalar_event tag tok) = tag"
  "ev_value (scalar_event tag tok) = tok"
  "ev_type (plain_event t) = t"
  "ev_tag (plain_event t) = None"
  "ev_line (scalar_event tag tok) = 0"
  "ev_column (scalar_event tag tok) = 0"
  by (simp_all add: scalar_event_def plain_event_def)

lemma sample_scalars:
  "parse_scalar lc os s (scalar_event (Some YAML_BOOL_TAG) ''true'') = Ok (AD_BOOL True)"
  "parse_scalar lc os s (scalar_event (Some YAML_BOOL_TAG) ''yes'') =
     exit_parse_error (scalar_event (Some YAML_BOOL_TAG) ''yes'') ''Unknown boolean value: %s'' [Str ''yes'']"
  "parse_scalar lc os s (scalar_event (Some YAML_NULL_TAG) ''~'') = Ok AD_NULL"
  "parse_scalar lc os s (scalar_event (Some YAML_INT_TAG) ''1'') = Ok (AD_INT 1)"
  "parse_scalar lc os s (scalar_event None ''a'') = Ok (AD_STR ''a'')"
  by (simp_all add: parse_scalar_def scalar_event_def parse_bool_def parse_null_def parse_int_def
        strtoimax_def scan_one range_defs c_str_def argdata_true_def argdata_null_def
        argdata_create_int_def argdata_create_str_def exit_parse_error_def
        YAML_BOOL_TAG_def YAML_STR_TAG_def YAML_NULL_TAG_def YAML_INT_TAG_def)

lemma parse_object_pos:
  "0 < n \<Longrightarrow> parse_object lc os n s p =
     bind_result (get_event p) (\<lambda>(event, p').
       parse_event lc os (parse_object lc os (n - 1)) event s p')"
  by (cases n) simp_all

lemma parse_object_scalar:
  "0 < n \<Longrightarrow> parse_object lc os n s (Event (scalar_event tag tok) # p) =
     bind_result (parse_scalar lc os s (scalar_event tag tok)) (\<lambda>ad. Ok (Some ad, s, p))"
  by (simp add: parse_object_pos parse_event_def sample_events del: parse_object.simps)

lemma parse_object_end:
  "0 < n \<Longrightarrow> parse_object lc os n s (Event (plain_event YAML_MAPPING_END_EVENT) # p) = Ok (None, s, p)"
  "0 < n \<Longrightarrow> parse_object lc os n s (Event (plain_event YAML_SEQUENCE_END_EVENT) # p) = Ok (None, s, p)"
  by (simp_all add: parse_object_pos parse_event_def sample_events del: parse_object.simps)

section \<open>The dispatch\<close>












section \<open>The claims\<close>

text \<open>
  C1, as the code has it. For a generic mapping (no tag, or the map tag), with
  allocations that succeed: the tree builder parses a key node, then a value node, until
  a key parse returns the end of the collection, and returns a \<open>Map\<close> of exactly the
  parsed keys and values, in order, whatever the type of a key. It returns a \<open>Map\<close> in
  no other case, and it ends with a fatal error exactly when, after some entries, the
  parse of the next key or of the value after it does, with that error.
\<close>

theorem parse_map_any_keys:
  assumes "ev_type start = YAML_MAPPING_START_EVENT"
    and "ev_tag start = None \<or> ev_tag start = Some YAML_MAP_TAG"
    and "realloc_succeeds os"
  shows
    "(parse_object lc os (Suc d) s (Event start # p) = Ok (r, s', p') \<longleftrightarrow>
        (\<exists>kvs s1 p1. parsed_entries (parse_object lc os d) s p kvs = Some (s1, p1) \<and>
           parse_object lc os d s1 p1 = Ok (None, s', p') \<and>
           r = Some (AD_MAP (map fst kvs) (map snd kvs)))) \<and>
     (parse_object lc os (Suc d) s (Event start # p) = Exit ds st \<longleftrightarrow>
        (\<exists>kvs s1 p1. parsed_entries (parse_object lc os d) s p kvs = Some (s1, p1) \<and>
           (parse_object lc os d s1 p1 = Exit ds st \<or>
            (\<exists>key s2 p2. parse_object lc os d s1 p1 = Ok (Some key, s2, p2) \<and>
               parse_object lc os d s2 p2 = Exit ds st))))"
proof -
  let ?po = "parse_object lc os d"
  note c = parse_object_consuming[of lc os d]
  note eq = parse_object_generic_mapping[OF assms(1,2), of lc os d s p]
  have ok: "parse_object lc os (Suc d) s (Event start # p) = Ok (r, s', p') \<longleftrightarrow>
        (\<exists>kvs s1 p1. parsed_entries ?po s p kvs = Some (s1, p1) \<and>
           ?po s1 p1 = Ok (None, s', p') \<and> r = Some (AD_MAP (map fst kvs) (map snd kvs)))"
    unfolding eq
    using parse_map_ok_sound[of os ?po "Suc (length p)" s p "[]" "[]" 0 r s' p']
      parse_map_ok_complete[OF c assms(3), of s p _ _ _ s' p' "Suc (length p)" "[]" "[]" 0]
    by (auto simp del: parse_map.simps parse_object.simps)
  have ex: "parse_object lc os (Suc d) s (Event start # p) = Exit ds st \<longleftrightarrow>
        (\<exists>kvs s1 p1. parsed_entries ?po s p kvs = Some (s1, p1) \<and>
           (?po s1 p1 = Exit ds st \<or>
            (\<exists>key s2 p2. ?po s1 p1 = Ok (Some key, s2, p2) \<and> ?po s2 p2 = Exit ds st)))"
    unfolding eq
    using parse_map_exit_sound[of os ?po "Suc (length p)" s p "[]" "[]" 0 ds st]
      parse_map_exit_complete[OF c assms(3), of s p _ _ _ ds st "Suc (length p)" "[]" "[]" 0]
    by (auto simp del: parse_map.simps parse_object.simps)
  show ?thesis using ok ex by blast
qed

theorem parse_map_any_keys_witness:
  "parse_object sample_libc (sample_os (\<lambda>h. [])) 3 []
     [Event (plain_event YAML_MAPPING_START_EVENT),
      Event (scalar_event (Some YAML_BOOL_TAG) ''true''),
      Event (scalar_event (Some YAML_NULL_TAG) ''~''),
      Event (plain_event YAML_MAPPING_END_EVENT)] =
     Ok (Some (AD_MAP [AD_BOOL True] [Some AD_NULL]), [], []) \<and>
   parse_object sample_libc (sample_os (\<lambda>h. [])) 3 []
     [Event (plain_event YAML_MAPPING_START_EVENT),
      Event (scalar_event (Some YAML_BOOL_TAG) ''true''),
      Event (scalar_event (Some YAML_NULL_TAG) ''~''),
      Event (scalar_event (Some YAML_BOOL_TAG) ''yes'')] =
     exit_parse_error (scalar_event (Some YAML_BOOL_TAG) ''yes'') ''Unknown boolean value: %s''
       [Str ''yes'']"
proof -
  let ?os = "sample_os (\<lambda>h. [])"
  let ?po = "parse_object sample_libc ?os 2"
  let ?start = "plain_event YAML_MAPPING_START_EVENT"
  let ?k = "Event (scalar_event (Some YAML_BOOL_TAG) ''true'')"
  let ?v = "Event (scalar_event (Some YAML_NULL_TAG) ''~'')"
  let ?stop = "Event (plain_event YAML_MAPPING_END_EVENT)"
  let ?bad = "Event (scalar_event (Some YAML_BOOL_TAG) ''yes'')"
  let ?err = "[Printf ''stdin:%zu:%zu: '' [Num 1, Num 1], Printf ''Unknown boolean value: %s'' [Str ''yes''],
               Printf [CHR 0x0A] []]"
  have three: "(3::nat) = Suc 2" by simp
  have h: "ev_type ?start = YAML_MAPPING_START_EVENT"
    "ev_tag ?start = None \<or> ev_tag ?start = Some YAML_MAP_TAG"
    by (simp_all add: sample_events)
  have k: "?po [] (?k # q) = Ok (Some (AD_BOOL True), [], q)" for q
    by (simp add: parse_object_scalar sample_scalars del: parse_object.simps)
  have v: "?po [] (?v # q) = Ok (Some AD_NULL, [], q)" for q
    by (simp add: parse_object_scalar sample_scalars del: parse_object.simps)
  have e: "?po [] [?stop] = Ok (None, [], [])"
    by (simp add: parse_object_end del: parse_object.simps)
  have b: "?po [] [?bad] = Exit ?err 127"
    by (simp add: parse_object_scalar sample_scalars exit_parse_error_def sample_events
          del: parse_object.simps)
  have pe: "parsed_entries ?po [] [?k, ?v, ?stop] [(AD_BOOL True, Some AD_NULL)] = Some ([], [?stop])"
    "parsed_entries ?po [] [?k, ?v, ?bad] [(AD_BOOL True, Some AD_NULL)] = Some ([], [?bad])"
    by (simp_all add: k v del: parse_object.simps)
  note t = parse_map_any_keys [OF h sample_realloc_succeeds,
      where lc = sample_libc and d = 2 and s = "[]"]
  have ex1: "\<exists>kvs s1 p1. parsed_entries ?po [] [?k, ?v, ?stop] kvs = Some (s1, p1) \<and>
           ?po s1 p1 = Ok (None, [], []) \<and>
           Some (AD_MAP [AD_BOOL True] [Some AD_NULL]) = Some (AD_MAP (map fst kvs) (map snd kvs))"
    using pe(1) e
    by (intro exI[of _ "[(AD_BOOL True, Some AD_NULL)]"] exI[of _ "[]"] exI[of _ "[?stop]"])
       (simp del: parse_object.simps parsed_entries.simps)
  have ex2: "\<exists>kvs s1 p1. parsed_entries ?po [] [?k, ?v, ?bad] kvs = Some (s1, p1) \<and>
           (?po s1 p1 = Exit ?err 127 \<or>
            (\<exists>key s2 p2. ?po s1 p1 = Ok (Some key, s2, p2) \<and> ?po s2 p2 = Exit ?err 127))"
    using pe(2) b
    by (intro exI[of _ "[(AD_BOOL True, Some AD_NULL)]"] exI[of _ "[]"] exI[of _ "[?bad]"])
       (simp del: parse_object.simps parsed_entries.simps)
  have A: "parse_object sample_libc ?os (Suc 2) [] [Event ?start, ?k, ?v, ?stop] =
             Ok (Some (AD_MAP [AD_BOOL True] [Some AD_NULL]), [], [])"
    by (rule t [where p = "[?k, ?v, ?stop]" and r = "Some (AD_MAP [AD_BOOL True] [Some AD_NULL])"
             and s' = "[]" and p' = "[]", THEN conjunct1, THEN iffD2, OF ex1])
  have B: "parse_object sample_libc ?os (Suc 2) [] [Event ?start, ?k, ?v, ?bad] = Exit ?err 127"
    by (rule t [where p = "[?k, ?v, ?bad]" and ds = ?err and st = 127, THEN conjunct2, THEN iffD2, OF ex2])
  have C: "exit_parse_error (scalar_event (Some YAML_BOOL_TAG) ''yes'') ''Unknown boolean value: %s''
       [Str ''yes''] = (Exit ?err 127 :: int list parsed)"
    by (simp add: exit_parse_error_def sample_events)
  show ?thesis
    unfolding three C by (rule conjI[OF A B])
qed

text \<open>
  C1, as stated, fails: a mapping with the int-tagged key \<open>1\<close>, which does not decode as a
  string, is returned as a \<open>Map\<close>; and a mapping that carries the string tag is not a
  generic mapping but an unsupported one.
\<close>

theorem map_key_counterexample:
  "argdata_get_str_c (Some (AD_INT 1)) = Ok (Inl EINVAL) \<and>
   parse_object sample_libc (sample_os (\<lambda>h. [])) 5 []
     [Event (plain_event YAML_MAPPING_START_EVENT),
      Event (scalar_event (Some YAML_INT_TAG) ''1''),
      Event (scalar_event None ''a''),
      Event (plain_event YAML_MAPPING_END_EVENT)] =
   Ok (Some (AD_MAP [AD_INT 1] [Some (AD_STR ''a'')]), [], []) \<and>
   parse_object sample_libc (sample_os (\<lambda>h. [])) 3 []
     [Event ((plain_event YAML_MAPPING_START_EVENT)\<lparr>ev_tag := Some YAML_STR_TAG\<rparr>),
      Event (plain_event YAML_MAPPING_END_EVENT)] =
   exit_parse_error ((plain_event YAML_MAPPING_START_EVENT)\<lparr>ev_tag := Some YAML_STR_TAG\<rparr>)
     ''Unsupported tag for mapping: %s'' [Str YAML_STR_TAG]"
proof -
  let ?os = "sample_os (\<lambda>h. [])"
  have k: "parse_object sample_libc ?os 4 [] (Event (scalar_event (Some YAML_INT_TAG) ''1'') # q)
             = Ok (Some (AD_INT 1), [], q)" for q
    by (simp add: parse_object_scalar sample_scalars del: parse_object.simps)
  have v: "parse_object sample_libc ?os 4 [] (Event (scalar_event None ''a'') # q)
             = Ok (Some (AD_STR ''a''), [], q)" for q
    by (simp add: parse_object_scalar sample_scalars del: parse_object.simps)
  have e: "parse_object sample_libc ?os 4 [] (Event (plain_event YAML_MAPPING_END_EVENT) # q)
             = Ok (None, [], q)" for q
    by (simp add: parse_object_end del: parse_object.simps)
  have m: "parse_object sample_libc ?os 5 []
     [Event (plain_event YAML_MAPPING_START_EVENT),
      Event (scalar_event (Some YAML_INT_TAG) ''1''),
      Event (scalar_event None ''a''),
      Event (plain_event YAML_MAPPING_END_EVENT)] =
   Ok (Some (AD_MAP [AD_INT 1] [Some (AD_STR ''a'')]), [], [])"
    by (simp add: parse_object_pos[of 5] parse_event_def sample_events k v e argdata_create_map_def
          del: parse_object.simps)
  have u: "parse_object sample_libc ?os 3 []
     [Event ((plain_event YAML_MAPPING_START_EVENT)\<lparr>ev_tag := Some YAML_STR_TAG\<rparr>),
      Event (plain_event YAML_MAPPING_END_EVENT)] =
   exit_parse_error ((plain_event YAML_MAPPING_START_EVENT)\<lparr>ev_tag := Some YAML_STR_TAG\<rparr>)
     ''Unsupported tag for mapping: %s'' [Str YAML_STR_TAG]"
    by (simp add: parse_object_pos[of 3] parse_event_def plain_event_def YAML_STR_TAG_def
          YAML_MAP_TAG_def TAG_PREFIX_def del: parse_object.simps)
  from m u show ?thesis by (simp add: argdata_get_str_c_def)
qed

text \<open>
  C2. A pull on a buffer-backed iterator whose offset is within the buffer: with no
  byte left it returns "no more elements" and leaves the iterator as it is; when
  \<open>parse_subfield\<close> reports an error it records that error and returns "no more
  elements" too. So after "no more elements" on an iterator that had no error, the error
  field is zero exactly when the bytes were exhausted.
\<close>

theorem seq_next_exhaustion_or_error:
  assumes "it_container it = AD_BUFFER buffer"
    and "it_offset it \<le> length buffer"
    and "length buffer < 2 ^ 64"
  shows
    "(it_offset it = length buffer \<longrightarrow> argdata_seq_next ps it = Some (False, None, it)) \<and>
     (it_offset it < length buffer \<and>
      sf_error (ps (it_value it) (drop (it_offset it) buffer) (length buffer - it_offset it)) \<noteq> 0 \<longrightarrow>
        (\<exists>it'. argdata_seq_next ps it = Some (False, None, it') \<and>
           it_error it' = sf_error (ps (it_value it) (drop (it_offset it) buffer) (length buffer - it_offset it)) \<and>
           it_error it' \<noteq> 0 \<and> it_offset it' = it_offset it)) \<and>
     (it_error it = 0 \<longrightarrow>
        (\<forall>v it'. argdata_seq_next ps it = Some (False, v, it') \<longrightarrow>
           (it_error it' = 0 \<longleftrightarrow> it_offset it = length buffer)))"
  using assms size_sub_le[OF assms(2,3)]
  by (auto simp: argdata_seq_next_def Let_def)

theorem seq_next_exhaustion_or_error_witness:
  "argdata_seq_next prefixed_subfield
      \<lparr>it_container = AD_BUFFER [2, 10, 11], it_offset = 3, it_error = 0, it_value = AD_NULL\<rparr> =
     Some (False, None, \<lparr>it_container = AD_BUFFER [2, 10, 11], it_offset = 3, it_error = 0, it_value = AD_NULL\<rparr>) \<and>
   (\<exists>it'. argdata_seq_next prefixed_subfield
      \<lparr>it_container = AD_BUFFER [2, 10, 11, 3, 7], it_offset = 3, it_error = 0, it_value = AD_NULL\<rparr> =
        Some (False, None, it') \<and> it_error it' = EINVAL \<and> it_offset it' = 3)"
proof -
  have a: "it_container \<lparr>it_container = AD_BUFFER [2, 10, 11], it_offset = 3, it_error = 0, it_value = AD_NULL\<rparr>
             = AD_BUFFER [2, 10, 11]"
    "it_offset \<lparr>it_container = AD_BUFFER [2, 10, 11], it_offset = 3, it_error = 0, it_value = AD_NULL\<rparr>
       \<le> length [2, 10, 11 :: nat]"
    "length [2, 10, 11 :: nat] < 2 ^ 64"
    by simp_all
  have b: "it_container \<lparr>it_container = AD_BUFFER [2, 10, 11, 3, 7], it_offset = 3, it_error = 0, it_value = AD_NULL\<rparr>
             = AD_BUFFER [2, 10, 11, 3, 7]"
    "it_offset \<lparr>it_container = AD_BUFFER [2, 10, 11, 3, 7], it_offset = 3, it_error = 0, it_value = AD_NULL\<rparr>
       \<le> length [2, 10, 11, 3, 7 :: nat]"
    "length [2, 10, 11, 3, 7 :: nat] < 2 ^ 64"
    by simp_all
  show ?thesis
    using seq_next_exhaustion_or_error [OF a, of prefixed_subfield]
          seq_next_exhaustion_or_error [OF b, of prefixed_subfield]
    by (auto simp: prefixed_subfield_def EINVAL_def)
qed

text \<open>
  C3. The tokens \<open>stdout\<close> and \<open>stderr\<close> of an existing-descriptor reference resolve
  alike: both probe the standard-output descriptor (\<open>STDOUT_FILENO\<close>) and, when it is
  open, both give the \<open>Fd\<close> node of that number.
\<close>

theorem parse_fd_stdout_stderr:
  "parse_fd lc os s (event\<lparr>ev_value := ''stdout''\<rparr>) =
     (case sys_fstat os s STDOUT_FILENO of
        None \<Rightarrow> Ok (AD_FD STDOUT_FILENO)
      | Some errno \<Rightarrow>
          exit_parse_error event ''File descriptor %d: %s'' [Num STDOUT_FILENO, Str (strerror lc errno)]) \<and>
   parse_fd lc os s (event\<lparr>ev_value := ''stderr''\<rparr>) = parse_fd lc os s (event\<lparr>ev_value := ''stdout''\<rparr>)"
  by (simp add: parse_fd_def parse_fd_number_def c_str_examples argdata_create_fd_def exit_parse_error_def
        split: option.splits)

text \<open>
  C4. An int-tagged token: a leading \<open>0o\<close> selects base 8, a leading \<open>0x\<close> base 16,
  otherwise base 10. The signed conversion of the remainder is tried first and its value
  returned if the whole remainder converts in range; otherwise the unsigned conversion,
  likewise; otherwise the parse error "Invalid integer value". In particular \<open>42\<close>,
  \<open>0x1F\<close>, \<open>0o17\<close> and \<open>-5\<close> give 42, 31, 15 and -5.
\<close>

theorem parse_int_conversions:
  "parse_int lc event =
     (let tok = ev_value event; base = int_token_base tok; rest = int_token_rest tok in
      if whole_in_range rest (strtoimax lc rest base)
        then Ok (AD_INT (fst (strtoimax lc rest base)))
      else if whole_in_range rest (strtoumax lc rest base)
        then Ok (AD_INT (fst (strtoumax lc rest base)))
      else exit_parse_error event ''Invalid integer value'' []) \<and>
   parse_int lc (event\<lparr>ev_value := ''42''\<rparr>) = Ok (AD_INT 42) \<and>
   parse_int lc (event\<lparr>ev_value := ''0x1F''\<rparr>) = Ok (AD_INT 31) \<and>
   parse_int lc (event\<lparr>ev_value := ''0o17''\<rparr>) = Ok (AD_INT 15) \<and>
   parse_int lc (event\<lparr>ev_value := ''-5''\<rparr>) = Ok (AD_INT (- 5))"
proof (intro conjI)
  show "parse_int lc event =
     (let tok = ev_value event; base = int_token_base tok; rest = int_token_rest tok in
      if whole_in_range rest (strtoimax lc rest base)
        then Ok (AD_INT (fst (strtoimax lc rest base)))
      else if whole_in_range rest (strtoumax lc rest base)
        then Ok (AD_INT (fst (strtoumax lc rest base)))
      else exit_parse_error event ''Invalid integer value'' [])"
  proof -
    define v where "v = ev_value event"
    define pre where "pre \<longleftrightarrow> take 2 v = ''0o'' \<or> take 2 v = ''0x''"
    define base :: nat where "base = (if take 2 v = ''0o'' then 8 else if take 2 v = ''0x'' then 16 else 10)"
    define rest where "rest = drop (if pre then 2 else 0) v"
    obtain a b c where i: "strtoimax lc rest base = (a, b, c)" by (cases "strtoimax lc rest base") auto
    obtain a' b' c' where u: "strtoumax lc rest base = (a', b', c')" by (cases "strtoumax lc rest base") auto
    have "\<And>t. take 2 v = t \<Longrightarrow> length t \<le> length v"
      by (metis length_take min.cobounded1)
    from this[of "''0o''"] this[of "''0x''"] have len: "pre \<Longrightarrow> 2 \<le> length v"
      unfolding pre_def by auto
    have key: "\<And>e. ((if pre then 2 else 0) + e = length v) = (e = length rest)"
      using len unfolding rest_def by auto
    have b: "int_token_base v = base" by (simp add: int_token_base_def base_def)
    have r: "int_token_rest v = rest" by (simp add: int_token_rest_def rest_def pre_def)
    have "parse_int lc event =
        (case strtoimax lc rest base of (intval, endptr, errno) \<Rightarrow>
           if errno = 0 \<and> (if pre then 2 else 0) + endptr = length v then Ok (argdata_create_int intval)
           else case strtoumax lc rest base of (uintval, endptr', errno') \<Rightarrow>
             if errno' = 0 \<and> (if pre then 2 else 0) + endptr' = length v then Ok (argdata_create_int uintval)
             else exit_parse_error event ''Invalid integer value'' [])"
      by (simp only: parse_int_def Let_def v_def pre_def base_def rest_def)
    also have "\<dots> =
        (if whole_in_range rest (strtoimax lc rest base)
           then Ok (AD_INT (fst (strtoimax lc rest base)))
         else if whole_in_range rest (strtoumax lc rest base)
           then Ok (AD_INT (fst (strtoumax lc rest base)))
         else exit_parse_error event ''Invalid integer value'' [])"
      by (simp add: i u key whole_in_range_def argdata_create_int_def)
    finally show ?thesis
      by (simp only: Let_def v_def[symmetric] b r)
  qed
  show "parse_int lc (event\<lparr>ev_value := ''42''\<rparr>) = Ok (AD_INT 42)"
    by (simp add: parse_int_def strtoimax_def scan_examples range_defs argdata_create_int_def)
  show "parse_int lc (event\<lparr>ev_value := ''0x1F''\<rparr>) = Ok (AD_INT 31)"
    by (simp add: parse_int_def strtoimax_def scan_examples range_defs argdata_create_int_def)
  show "parse_int lc (event\<lparr>ev_value := ''0o17''\<rparr>) = Ok (AD_INT 15)"
    by (simp add: parse_int_def strtoimax_def scan_examples range_defs argdata_create_int_def)
  show "parse_int lc (event\<lparr>ev_value := ''-5''\<rparr>) = Ok (AD_INT (- 5))"
    by (simp add: parse_int_def strtoimax_def scan_examples range_defs argdata_create_int_def)
qed

text \<open>
  C5. A bind string that is not a path either has no port separator, which is an error
  of its own, or is resolved with the chosen socket type as the hint, and then exactly
  one address is required: a failed resolution (no address) and a resolution to two or
  more addresses both end the launch with an error that names the bind string; a single
  address is the one bound.
\<close>

theorem socket_single_address:
  assumes "take 1 b \<noteq> ''/''"
    and "socket_type_of typestr = Some type"
  shows
    "case split_host_port b of
       None \<Rightarrow>
         parse_socket_bind lc os event s typestr (Some b) =
           exit_parse_error event ''Address %s does not contain a port number'' [Str b]
     | Some (i, j) \<Rightarrow>
         (\<forall>e. sys_getaddrinfo os s (take i b) (drop j b) type = Inl e \<longrightarrow>
            parse_socket_bind lc os event s typestr (Some b) =
              exit_parse_error event ''Failed to resolve %s: %s'' [Str b, Str (gai_strerror lc e)]) \<and>
         (\<forall>a a' as. sys_getaddrinfo os s (take i b) (drop j b) type = Inr (a, a' # as) \<longrightarrow>
            parse_socket_bind lc os event s typestr (Some b) =
              exit_parse_error event ''%s resolves to multiple addresses'' [Str b]) \<and>
         (\<forall>a. sys_getaddrinfo os s (take i b) (drop j b) type = Inr (a, []) \<longrightarrow>
            socket_address lc os event s type b = Ok a)"
proof -
  have t: "(if typestr = ''dgram'' then Ok SOCK_DGRAM
            else if typestr = ''seqpacket'' then Ok SOCK_SEQPACKET
            else if typestr = ''stream'' then Ok SOCK_STREAM
            else exit_parse_error event ''Unsupported type attribute: %s'' [Str typestr])
           = (Ok type :: socktype result)"
    using assms(2) by (auto simp: socket_type_of_def split: if_splits)
  have sa: "socket_address lc os event s type b =
      (case split_host_port b of
         None \<Rightarrow> exit_parse_error event ''Address %s does not contain a port number'' [Str b]
       | Some (i, j) \<Rightarrow>
           (case sys_getaddrinfo os s (take i b) (drop j b) type of
              Inl e \<Rightarrow>
                exit_parse_error event ''Failed to resolve %s: %s'' [Str b, Str (gai_strerror lc e)]
            | Inr (res, ai_next) \<Rightarrow>
                if ai_next \<noteq> []
                then exit_parse_error event ''%s resolves to multiple addresses'' [Str b]
                else Ok res))"
    using assms(1) by (simp add: socket_address_def)
  have pb: "parse_socket_bind lc os event s typestr (Some b) =
      bind_result (socket_address lc os event s type b) (\<lambda>sa.
        case sys_socket os s (sa_family sa) type of
          (Inl errno, s1) \<Rightarrow>
            exit_parse_error event ''Failed to create socket for %s: %s''
              [Str b, Str (strerror lc errno)]
        | (Inr fd, s1) \<Rightarrow>
            (case sys_bind os (sys_setsockopt_reuseaddr os s1 fd) fd sa of
               (Some errno, s2) \<Rightarrow>
                 exit_parse_error event ''Failed to bind to %s: %s''
                   [Str b, Str (strerror lc errno)]
             | (None, s2) \<Rightarrow>
                 (case sys_listen os s2 fd 0 of
                    (Some errno, s3) \<Rightarrow>
                      if errno \<noteq> EOPNOTSUPP
                      then exit_parse_error event ''Failed to listen on %s: %s''
                             [Str b, Str (strerror lc errno)]
                      else Ok (argdata_create_fd fd, s3)
                  | (None, s3) \<Rightarrow> Ok (argdata_create_fd fd, s3))))"
    unfolding parse_socket_bind_def t by simp
  show ?thesis
  proof (cases "split_host_port b")
    case None
    then show ?thesis unfolding pb sa by (simp add: exit_parse_error_def)
  next
    case (Some ij)
    obtain i j where ij: "ij = (i, j)" by (cases ij) auto
    show ?thesis
      unfolding pb sa Some ij by (auto simp: exit_parse_error_def)
  qed
qed

theorem socket_single_address_witness:
  "parse_socket_bind sample_libc (sample_os two_hosts) (plain_event YAML_MAPPING_START_EVENT) []
      ''stream'' (Some ''none:80'') =
     exit_parse_error (plain_event YAML_MAPPING_START_EVENT) ''Failed to resolve %s: %s''
       [Str ''none:80'', Str ''eai''] \<and>
   parse_socket_bind sample_libc (sample_os two_hosts) (plain_event YAML_MAPPING_START_EVENT) []
      ''stream'' (Some ''two:80'') =
     exit_parse_error (plain_event YAML_MAPPING_START_EVENT) ''%s resolves to multiple addresses''
       [Str ''two:80''] \<and>
   socket_address sample_libc (sample_os two_hosts) (plain_event YAML_MAPPING_START_EVENT) []
      SOCK_STREAM ''one:80'' = Ok \<lparr>sa_family = 2, sa_data = ''a''\<rparr>"
proof -
  have t: "socket_type_of ''stream'' = Some SOCK_STREAM" by (simp add: socket_type_of_def)
  have n: "take 1 ''none:80'' \<noteq> ''/''" and n': "split_host_port ''none:80'' = Some (4, 5)"
    by (simp_all add: split_host_port_def)
  have w: "take 1 ''two:80'' \<noteq> ''/''" and w': "split_host_port ''two:80'' = Some (3, 4)"
    by (simp_all add: split_host_port_def)
  have o: "take 1 ''one:80'' \<noteq> ''/''" and o': "split_host_port ''one:80'' = Some (3, 4)"
    by (simp_all add: split_host_port_def)
  show ?thesis
    using socket_single_address [OF n t, where lc = sample_libc and os = "sample_os two_hosts"
            and s = "[]" and event = "plain_event YAML_MAPPING_START_EVENT"]
          socket_single_address [OF w t, where lc = sample_libc and os = "sample_os two_hosts"
            and s = "[]" and event = "plain_event YAML_MAPPING_START_EVENT"]
          socket_single_address [OF o t, where lc = sample_libc and os = "sample_os two_hosts"
            and s = "[]" and event = "plain_event YAML_MAPPING_START_EVENT"]
    by (simp add: n' w' o' sample_os_def sample_libc_def two_hosts_def EAI_NONAME_def)
qed

text \<open>
  C6. When the token of an existing-descriptor reference resolves to a number, the
  descriptor is probed: if it is open the result is the \<open>Fd\<close> node of exactly that
  number; if the probe fails the launch ends with an error that names the descriptor,
  and there is no node.
\<close>

theorem parse_fd_probe:
  assumes "parse_fd_number lc event = Ok fd"
  shows "parse_fd lc os s event =
     (case sys_fstat os s fd of
        None \<Rightarrow> Ok (AD_FD fd)
      | Some errno \<Rightarrow>
          exit_parse_error event ''File descriptor %d: %s'' [Num fd, Str (strerror lc errno)])"
  using assms by (simp add: parse_fd_def argdata_create_fd_def split: option.splits)

theorem parse_fd_probe_witness:
  "parse_fd sample_libc (sample_os (\<lambda>h. [])) [0, 1, 2, 3] (scalar_event (Some (TAG_PREFIX @ ''fd'')) ''3'')
     = Ok (AD_FD 3) \<and>
   parse_fd sample_libc (sample_os (\<lambda>h. [])) [0, 1, 2] (scalar_event (Some (TAG_PREFIX @ ''fd'')) ''3'')
     = exit_parse_error (scalar_event (Some (TAG_PREFIX @ ''fd'')) ''3'')
         ''File descriptor %d: %s'' [Num 3, Str ''errno'']"
proof -
  have h: "parse_fd_number sample_libc (scalar_event (Some (TAG_PREFIX @ ''fd'')) ''3'') = Ok 3"
    by (simp add: parse_fd_number_def scalar_event_def c_str_examples strtoul_def strtoumax_def scan_examples range_defs)
  show ?thesis
    using parse_fd_probe [OF h, of "sample_os (\<lambda>h. [])" "[0, 1, 2, 3]"]
          parse_fd_probe [OF h, of "sample_os (\<lambda>h. [])" "[0, 1, 2]"]
    by (simp add: sample_os_def sample_libc_def)
qed

text \<open>
  C7, as the code has it. A bool-tagged scalar decodes by \<open>strcmp\<close>: to the true node
  when its bytes up to the first NUL are \<open>true\<close>, to the false node when they are
  \<open>false\<close>, and to a parse error otherwise; for a token without a NUL, decoding
  succeeds if and only if the token is one of the two.
\<close>

theorem parse_bool_c_string:
  "parse_scalar lc os s (event\<lparr>ev_tag := Some YAML_BOOL_TAG\<rparr>) =
     (if c_str (ev_value event) = ''true'' then Ok (AD_BOOL True)
      else if c_str (ev_value event) = ''false'' then Ok (AD_BOOL False)
      else exit_parse_error event ''Unknown boolean value: %s'' [Str (c_str (ev_value event))]) \<and>
   ((\<exists>ad. parse_scalar lc os s (event\<lparr>ev_tag := Some YAML_BOOL_TAG\<rparr>) = Ok ad) \<longleftrightarrow>
      (c_str (ev_value event) = ''true'' \<or> c_str (ev_value event) = ''false'')) \<and>
   (CHR 0x00 \<notin> set (ev_value event) \<longrightarrow>
      ((\<exists>ad. parse_scalar lc os s (event\<lparr>ev_tag := Some YAML_BOOL_TAG\<rparr>) = Ok ad) \<longleftrightarrow>
         (ev_value event = ''true'' \<or> ev_value event = ''false'')))"
proof -
  have eq: "parse_scalar lc os s (event\<lparr>ev_tag := Some YAML_BOOL_TAG\<rparr>) =
     (if c_str (ev_value event) = ''true'' then Ok (AD_BOOL True)
      else if c_str (ev_value event) = ''false'' then Ok (AD_BOOL False)
      else exit_parse_error event ''Unknown boolean value: %s'' [Str (c_str (ev_value event))])"
    by (simp add: parse_scalar_def parse_bool_def YAML_BOOL_TAG_def YAML_STR_TAG_def
          argdata_true_def argdata_false_def exit_parse_error_def Let_def)
  have iff: "(\<exists>ad. parse_scalar lc os s (event\<lparr>ev_tag := Some YAML_BOOL_TAG\<rparr>) = Ok ad) \<longleftrightarrow>
      (c_str (ev_value event) = ''true'' \<or> c_str (ev_value event) = ''false'')"
    unfolding eq by (simp add: exit_parse_error_def)
  show ?thesis
    using eq iff by (auto simp: c_str_id)
qed

theorem parse_bool_c_string_witness:
  "CHR 0x00 \<notin> set ''true'' \<and>
   (\<exists>ad. parse_scalar sample_libc (sample_os (\<lambda>h. [])) []
           (scalar_event (Some YAML_BOOL_TAG) ''true'') = Ok ad) \<and>
   \<not> (\<exists>ad. parse_scalar sample_libc (sample_os (\<lambda>h. [])) []
           (scalar_event (Some YAML_BOOL_TAG) ''yes'') = Ok ad)"
proof -
  have e: "(scalar_event (Some YAML_BOOL_TAG) ''true'')\<lparr>ev_tag := Some YAML_BOOL_TAG\<rparr>
             = scalar_event (Some YAML_BOOL_TAG) ''true''"
    "(scalar_event (Some YAML_BOOL_TAG) ''yes'')\<lparr>ev_tag := Some YAML_BOOL_TAG\<rparr>
             = scalar_event (Some YAML_BOOL_TAG) ''yes''"
    "ev_value (scalar_event (Some YAML_BOOL_TAG) ''true'') = ''true''"
    "ev_value (scalar_event (Some YAML_BOOL_TAG) ''yes'') = ''yes''"
    by (simp_all add: scalar_event_def)
  have n: "CHR 0x00 \<notin> set ''true''" "CHR 0x00 \<notin> set ''yes''" by simp_all
  show ?thesis
    using parse_bool_c_string [of sample_libc "sample_os (\<lambda>h. [])" "[]"
            "scalar_event (Some YAML_BOOL_TAG) ''true''"]
          parse_bool_c_string [of sample_libc "sample_os (\<lambda>h. [])" "[]"
            "scalar_event (Some YAML_BOOL_TAG) ''yes''"]
    unfolding e using n by (simp add: c_str_def)
qed

text \<open>
  C7, as stated, fails: the scalar of the six bytes \<open>true\<close>, NUL, \<open>x\<close> is neither of
  the two tokens, and it decodes to the true node.
\<close>

theorem bool_token_counterexample:
  "''true'' @ [CHR 0x00, CHR ''x''] \<noteq> ''true'' \<and>
   ''true'' @ [CHR 0x00, CHR ''x''] \<noteq> ''false'' \<and>
   parse_scalar sample_libc (sample_os (\<lambda>h. [])) []
     (scalar_event (Some YAML_BOOL_TAG) (''true'' @ [CHR 0x00, CHR ''x''])) = Ok (AD_BOOL True)"
  by (simp add: parse_scalar_def parse_bool_def scalar_event_def c_str_def argdata_true_def
        YAML_BOOL_TAG_def YAML_STR_TAG_def)




text \<open>
  C9, as the code has it. For a token that \<open>strcmp\<close> finds different from \<open>stdout\<close> and
  \<open>stderr\<close>, resolution reaches the probe only if \<open>strtoul\<close> takes the whole token in
  base 10 (optional white space, an optional sign, then one or more decimal digits; or
  the empty token, with a C library that sets no \<open>errno\<close> when nothing is converted) and
  the converted value is between 0 and \<open>INT_MAX\<close>. Every other token ends the launch
  with "Invalid file descriptor number", whatever the state of the descriptors: no probe
  is made. A run of decimal digits resolves, to the number it denotes, exactly when that
  number is at most \<open>INT_MAX\<close>; and whenever \<open>strtoul\<close> reports a range error, stops
  before the end of the token or converts to more than \<open>INT_MAX\<close>, the token is
  rejected.
\<close>

theorem parse_fd_number_accepts:
  assumes "c_str (ev_value event) \<noteq> ''stdout''" and "c_str (ev_value event) \<noteq> ''stderr''"
  shows
    "(\<forall>fd. parse_fd_number lc event = Ok fd \<longrightarrow>
        (strtoul_numeral (ev_value event) \<or> (ev_value event = [] \<and> noconv_errno lc = 0)) \<and>
        0 \<le> fd \<and> fd \<le> INT_MAX) \<and>
     ((\<nexists>fd. parse_fd_number lc event = Ok fd) \<longrightarrow>
        (\<forall>(os :: 's os) s. parse_fd lc os s event =
                 exit_parse_error event ''Invalid file descriptor number'' [])) \<and>
     (\<not> strtoul_numeral (ev_value event) \<and> ev_value event \<noteq> [] \<longrightarrow>
        (\<forall>(os :: 's os) s. parse_fd lc os s event =
                 exit_parse_error event ''Invalid file descriptor number'' [])) \<and>
     (decimal_numeral (ev_value event) \<and> int (decimal_value (ev_value event)) \<le> INT_MAX \<longrightarrow>
        parse_fd_number lc event = Ok (int (decimal_value (ev_value event)))) \<and>
     (decimal_numeral (ev_value event) \<and> int (decimal_value (ev_value event)) > INT_MAX \<longrightarrow>
        (\<forall>(os :: 's os) s. parse_fd lc os s event =
                 exit_parse_error event ''Invalid file descriptor number'' [])) \<and>
     (\<forall>v e en. strtoul lc (ev_value event) 10 = (v, e, en) \<and>
          (en \<noteq> 0 \<or> e \<noteq> length (ev_value event) \<or> v > INT_MAX) \<longrightarrow>
        (\<forall>(os :: 's os) s. parse_fd lc os s event =
                 exit_parse_error event ''Invalid file descriptor number'' []))"
proof -
  let ?tok = "ev_value event"
  let ?bad = "\<lambda>(os :: 's os) s. parse_fd lc os s event =
                 exit_parse_error event ''Invalid file descriptor number'' []"
  obtain v e en where st: "strtoul lc ?tok 10 = (v, e, en)"
    by (cases "strtoul lc ?tok 10") auto
  have pn: "parse_fd_number lc event =
      (if en \<noteq> 0 \<or> e \<noteq> length ?tok \<or> v > INT_MAX
       then exit_parse_error event ''Invalid file descriptor number'' [] else Ok v)"
    using assms st by (simp add: parse_fd_number_def)
  have acc: "strtoul_numeral ?tok \<or> (?tok = [] \<and> noconv_errno lc = 0)"
    and nonneg: "0 \<le> v"
    if ok: "en = 0" "e = length ?tok"
  proof -
    show "strtoul_numeral ?tok \<or> (?tok = [] \<and> noconv_errno lc = 0)"
    proof (cases "strto_scan 10 ?tok")
      case None
      then show ?thesis using st ok by (simp add: strtoul_def strtoumax_def)
    next
      case (Some t)
      obtain neg m n where t: "t = (neg, m, n)" by (cases t) auto
      have "n = length ?tok"
        using st ok Some t by (auto simp: strtoul_def strtoumax_def split: if_splits)
      from strto_scan_whole[OF _ this] Some t show ?thesis by simp
    qed
    show "0 \<le> v"
      using st by (auto simp: strtoul_def strtoumax_def UINTMAX_MAX_def
                        split: option.splits if_splits)
  qed
  have first: "\<forall>fd. parse_fd_number lc event = Ok fd \<longrightarrow>
        (strtoul_numeral ?tok \<or> (?tok = [] \<and> noconv_errno lc = 0)) \<and> 0 \<le> fd \<and> fd \<le> INT_MAX"
    using acc nonneg unfolding pn by (auto simp: exit_parse_error_def split: if_splits)
  have second: "?bad os s"
    if "\<nexists>fd. parse_fd_number lc event = Ok fd" for os :: "'s os" and s
    using that unfolding pn parse_fd_def by (auto simp: pn exit_parse_error_def split: if_splits)
  have third: "\<nexists>fd. parse_fd_number lc event = Ok fd"
    if "\<not> strtoul_numeral ?tok \<and> ?tok \<noteq> []"
    using that first by blast
  have rej: "\<nexists>fd. parse_fd_number lc event = Ok fd"
    if "en \<noteq> 0 \<or> e \<noteq> length ?tok \<or> v > INT_MAX"
    using that unfolding pn by (auto simp: exit_parse_error_def)
  have dec: "v = (if int (decimal_value ?tok) > UINTMAX_MAX then UINTMAX_MAX else int (decimal_value ?tok))
             \<and> e = length ?tok
             \<and> en = (if int (decimal_value ?tok) > UINTMAX_MAX then ERANGE else 0)"
    if "decimal_numeral ?tok"
    using st strto_scan_decimal[OF that] by (auto simp: strtoul_def strtoumax_def)
  have fourth: "parse_fd_number lc event = Ok (int (decimal_value ?tok))"
    if "decimal_numeral ?tok \<and> int (decimal_value ?tok) \<le> INT_MAX"
    using that dec unfolding pn by (auto simp: range_defs)
  have fifth: "\<nexists>fd. parse_fd_number lc event = Ok fd"
    if "decimal_numeral ?tok \<and> int (decimal_value ?tok) > INT_MAX"
    using that dec rej by (auto simp: range_defs split: if_splits)
  have sixth: "\<forall>v' e' en'. strtoul lc ?tok 10 = (v', e', en') \<and>
          (en' \<noteq> 0 \<or> e' \<noteq> length ?tok \<or> v' > INT_MAX) \<longrightarrow>
          (\<nexists>fd. parse_fd_number lc event = Ok fd)"
    using rej st by auto
  show ?thesis
    using first second third fourth fifth sixth by blast
qed

theorem parse_fd_number_accepts_witness:
  "strtoul_numeral '' 1'' \<and> decimal_numeral ''12'' \<and> decimal_numeral ''2147483648'' \<and>
   parse_fd_number sample_libc (scalar_event (Some (TAG_PREFIX @ ''fd'')) ''12'') = Ok 12 \<and>
   parse_fd sample_libc (sample_os (\<lambda>h. [])) [0, 1, 2]
       (scalar_event (Some (TAG_PREFIX @ ''fd'')) ''2147483648'') =
     exit_parse_error (scalar_event (Some (TAG_PREFIX @ ''fd'')) ''2147483648'')
       ''Invalid file descriptor number'' [] \<and>
   parse_fd sample_libc (sample_os (\<lambda>h. [])) [0, 1, 2]
       (scalar_event (Some (TAG_PREFIX @ ''fd'')) ''12a'') =
     exit_parse_error (scalar_event (Some (TAG_PREFIX @ ''fd'')) ''12a'')
       ''Invalid file descriptor number'' []"
proof -
  let ?ev = "\<lambda>tok. scalar_event (Some (TAG_PREFIX @ ''fd'')) tok"
  have n: "\<not> strtoul_numeral ''12a''" "strtoul_numeral '' 1''"
    "decimal_numeral ''12''" "decimal_numeral ''2147483648''"
    by code_simp+
  have dv: "decimal_value ''12'' = 12" "decimal_value ''2147483648'' = 2147483648"
    by (simp_all add: decimal_value_def)
  have v: "ev_value (?ev tok) = tok" for tok
    by (simp add: scalar_event_def)
  have h: "c_str ''12a'' \<noteq> ''stdout''" "c_str ''12a'' \<noteq> ''stderr''"
    "c_str ''12'' \<noteq> ''stdout''" "c_str ''12'' \<noteq> ''stderr''"
    "c_str ''2147483648'' \<noteq> ''stdout''" "c_str ''2147483648'' \<noteq> ''stderr''"
    by (simp_all add: c_str_def)
  from parse_fd_number_accepts [where ?'s = "int list" and event = "?ev ''12a''", unfolded v,
          OF h(1,2), of sample_libc] n
  have a: "\<forall>(os :: int list os) s. parse_fd sample_libc os s (?ev ''12a'') =
          exit_parse_error (?ev ''12a'') ''Invalid file descriptor number'' []"
    by simp
  from parse_fd_number_accepts [where ?'s = "int list" and event = "?ev ''12''", unfolded v,
          OF h(3,4), of sample_libc] n dv
  have b: "parse_fd_number sample_libc (?ev ''12'') = Ok 12"
    by (simp add: INT_MAX_def)
  from parse_fd_number_accepts [where ?'s = "int list" and event = "?ev ''2147483648''", unfolded v,
          OF h(5,6), of sample_libc] n dv
  have c: "\<forall>(os :: int list os) s. parse_fd sample_libc os s (?ev ''2147483648'') =
          exit_parse_error (?ev ''2147483648'') ''Invalid file descriptor number'' []"
    by (simp add: INT_MAX_def)
  from a b c n show ?thesis by blast
qed

text \<open>
  C9, as stated, fails: the token of a space and the digit 1 is not a run of decimal
  digits, yet it resolves to descriptor 1; and the token of the bytes \<open>stdout\<close>, NUL,
  \<open>x\<close> is neither symbolic name nor a numeral, yet it resolves to the standard output.
\<close>

theorem fd_token_counterexample:
  "\<not> decimal_numeral '' 1'' \<and> '' 1'' \<noteq> ''stdout'' \<and> '' 1'' \<noteq> ''stderr'' \<and>
   parse_fd sample_libc (sample_os (\<lambda>h. [])) [0, 1, 2]
       (scalar_event (Some (TAG_PREFIX @ ''fd'')) '' 1'') = Ok (AD_FD 1) \<and>
   \<not> decimal_numeral (''stdout'' @ [CHR 0x00, CHR ''x'']) \<and>
   ''stdout'' @ [CHR 0x00, CHR ''x''] \<noteq> ''stdout'' \<and>
   ''stdout'' @ [CHR 0x00, CHR ''x''] \<noteq> ''stderr'' \<and>
   parse_fd sample_libc (sample_os (\<lambda>h. [])) [0, 1, 2]
       (scalar_event (Some (TAG_PREFIX @ ''fd'')) (''stdout'' @ [CHR 0x00, CHR ''x''])) = Ok (AD_FD 1)"
proof -
  have "\<not> decimal_numeral '' 1''" "\<not> decimal_numeral (''stdout'' @ [CHR 0x00, CHR ''x''])"
    by code_simp+
  moreover have "parse_fd sample_libc (sample_os (\<lambda>h. [])) [0, 1, 2]
       (scalar_event (Some (TAG_PREFIX @ ''fd'')) '' 1'') = Ok (AD_FD 1)"
    by (simp add: parse_fd_def parse_fd_number_def scalar_event_def strtoul_def strtoumax_def
          scan_space_one range_defs sample_os_def argdata_create_fd_def c_str_def)
  moreover have "parse_fd sample_libc (sample_os (\<lambda>h. [])) [0, 1, 2]
       (scalar_event (Some (TAG_PREFIX @ ''fd'')) (''stdout'' @ [CHR 0x00, CHR ''x''])) = Ok (AD_FD 1)"
    by (simp add: parse_fd_def parse_fd_number_def scalar_event_def STDOUT_FILENO_def
          sample_os_def argdata_create_fd_def c_str_def)
  ultimately show ?thesis by simp
qed




end
